theory Spec2Isabelle
  imports Main "HOL-Library.Word" "HOL-Library.Log_Nat"
begin

section \<open>Floating-point arithmetic of the numeric kernels\<close>

text \<open>
  The strategies of \<^verbatim>\<open>image_to_voxel.py\<close> compute heights, hue layers, depths and darkened
  colours in IEEE 754 binary floating point and then truncate. A float is modelled by the
  rational number it denotes; an operation is the exact rational operation followed by
  rounding to the nearest representable value, ties to even. \<open>round_to p emin\<close> rounds to
  \<open>p\<close> significant bits with gradual underflow at spacing \<open>2 powi emin\<close>. Overflow to
  infinity is not modelled: every quantity rounded below is bounded by a grid depth.
\<close>

definition round_half_even :: "rat \<Rightarrow> int" where
  "round_half_even q = (let f = \<lfloor>q\<rfloor>; r = q - of_int f in
     if r < 1/2 then f else if 1/2 < r then f + 1 else if even f then f else f + 1)"

text \<open>\<open>expo x\<close> is the binary exponent of a positive rational: \<open>2 powi expo x \<le> x < 2 powi (expo x + 1)\<close>.\<close>

definition expo :: "rat \<Rightarrow> int" where
  "expo x = (case quotient_of x of (a, b) \<Rightarrow>
     let k = bitlen a - bitlen b in if 2 powi k * of_int b \<le> (of_int a :: rat) then k else k - 1)"

definition round_to :: "nat \<Rightarrow> int \<Rightarrow> rat \<Rightarrow> rat" where
  "round_to p emin x = (if x = 0 then 0 else
      let s = 2 powi (max (expo \<bar>x\<bar> - int p + 1) emin);
          m = round_half_even (\<bar>x\<bar> / s)
      in sgn x * of_int m * s)"

text \<open>binary64 (\<^verbatim>\<open>float\<close>, \<^verbatim>\<open>np.float64\<close>) and binary32 (\<^verbatim>\<open>np.float32\<close>).\<close>

definition f64 :: "rat \<Rightarrow> rat" where
  "f64 = round_to 53 (- 1074)"

definition f32 :: "rat \<Rightarrow> rat" where
  "f32 = round_to 24 (- 149)"

text \<open>\<^verbatim>\<open>.astype(int)\<close> and \<^verbatim>\<open>int(...)\<close>: truncation toward zero.\<close>

definition astype_int :: "rat \<Rightarrow> int" where
  "astype_int v = (if 0 \<le> v then \<lfloor>v\<rfloor> else \<lceil>v\<rceil>)"

type_synonym u8 = "8 word"

text \<open>\<^verbatim>\<open>.astype(np.uint8)\<close>: truncation toward zero, then the low eight bits.\<close>

definition astype_u8 :: "rat \<Rightarrow> u8" where
  "astype_u8 v = word_of_int (astype_int v)"


section \<open>Errors, arrays and loops\<close>

datatype error =
    FileNotFoundError
  | Cv2Error
  | InvalidResolution
  | ValueError
  | IndexError
  | UnboundLocalError
  | AttributeError

text \<open>Sequencing: the first exception raised ends the computation.\<close>

definition and_then :: "error + 'a \<Rightarrow> ('a \<Rightarrow> error + 'b) \<Rightarrow> error + 'b" where
  "and_then m f = (case m of Inl e \<Rightarrow> Inl e | Inr v \<Rightarrow> f v)"

type_synonym rgb = "u8 \<times> u8 \<times> u8"

text \<open>
  A two-dimensional array produced by the image library, read as \<open>a y x\<close> for the source's
  \<^verbatim>\<open>a[y, x]\<close> (row \<open>y\<close>, column \<open>x\<close>). Its side length is the resolution it was made for; the
  strategies read it only at indices taken from \<^verbatim>\<open>range(voxel_resolution)\<close>.
\<close>

type_synonym 'a arr2 = "nat \<Rightarrow> nat \<Rightarrow> 'a"

text \<open>A three-dimensional \<^verbatim>\<open>ndarray\<close>: its shape and its cells.\<close>

record 'a ndarray3 =
  shape :: "nat \<times> nat \<times> nat"
  cell :: "nat \<times> nat \<times> nat \<Rightarrow> 'a"

definition in_shape :: "nat \<times> nat \<times> nat \<Rightarrow> nat \<times> nat \<times> nat \<Rightarrow> bool" where
  "in_shape sh c = (case sh of (a, b, d) \<Rightarrow> case c of (x, y, z) \<Rightarrow> x < a \<and> y < b \<and> z < d)"

text \<open>\<^verbatim>\<open>np.zeros((a, b, d))\<close>: a negative dimension raises \<^verbatim>\<open>ValueError\<close>.\<close>

definition np_zeros :: "int \<times> int \<times> int \<Rightarrow> 'a \<Rightarrow> error + 'a ndarray3" where
  "np_zeros dims zero = (case dims of (a, b, d) \<Rightarrow>
     if a < 0 \<or> b < 0 \<or> d < 0 then Inl ValueError
     else Inr \<lparr>shape = (nat a, nat b, nat d), cell = (\<lambda>_. zero)\<rparr>)"

text \<open>An index along an axis of length \<open>n\<close>: negative indices count from the end.\<close>

definition norm_index :: "nat \<Rightarrow> int \<Rightarrow> error + nat" where
  "norm_index n i =
     (if 0 \<le> i \<and> i < int n then Inr (nat i)
      else if - int n \<le> i \<and> i < 0 then Inr (nat (int n + i))
      else Inl IndexError)"

text \<open>\<^verbatim>\<open>a[x, y, z] = v\<close>\<close>

definition setitem :: "'a ndarray3 \<Rightarrow> int \<times> int \<times> int \<Rightarrow> 'a \<Rightarrow> error + 'a ndarray3" where
  "setitem a idx v = (case shape a of (sx, sy, sz) \<Rightarrow> (case idx of (x, y, z) \<Rightarrow>
     and_then (norm_index sx x) (\<lambda>i.
     and_then (norm_index sy y) (\<lambda>j.
     and_then (norm_index sz z) (\<lambda>k.
       Inr (a\<lparr>cell := (cell a)((i, j, k) := v)\<rparr>))))))"

text \<open>\<^verbatim>\<open>range(n)\<close> and a \<^verbatim>\<open>for\<close> loop over a list, stopping at the first exception.\<close>

definition py_range :: "int \<Rightarrow> int list" where
  "py_range n = map int [0..<nat n]"

fun for_each :: "'i list \<Rightarrow> ('i \<Rightarrow> 's \<Rightarrow> error + 's) \<Rightarrow> 's \<Rightarrow> error + 's" where
  "for_each [] body s = Inr s"
| "for_each (i # is) body s = and_then (body i s) (for_each is body)"

text \<open>The pair of grids every strategy fills: \<^verbatim>\<open>voxel_grid\<close> and \<^verbatim>\<open>colors\<close>.\<close>

type_synonym grids = "bool ndarray3 \<times> rgb ndarray3"

text \<open>
  The two statements all three strategies use to fill a voxel:
  \<^verbatim>\<open>voxel_grid[x, y, z] = True; colors[x, y, z] = v\<close>.
\<close>

definition mark :: "int \<times> int \<times> int \<Rightarrow> rgb \<Rightarrow> grids \<Rightarrow> error + grids" where
  "mark idx v s = (case s of (voxel_grid, colors) \<Rightarrow>
     and_then (setitem voxel_grid idx True) (\<lambda>voxel_grid'.
     and_then (setitem colors idx v) (\<lambda>colors'.
       Inr (voxel_grid', colors'))))"

text \<open>
  \<^verbatim>\<open>voxel_grid = np.zeros((r, r, d), dtype=bool)\<close> and
  \<^verbatim>\<open>colors = np.zeros((r, r, d, 3), dtype=np.uint8)\<close>
\<close>

definition new_grids :: "int \<Rightarrow> int \<Rightarrow> error + grids" where
  "new_grids r d =
     and_then (np_zeros (r, r, d) False) (\<lambda>voxel_grid.
     and_then (np_zeros (r, r, d) (0, 0, 0)) (\<lambda>colors.
       Inr (voxel_grid, colors)))"


section \<open>The image library\<close>

text \<open>
  OpenCV is not part of the repository. Its operations are parameters of the model: the
  interpolation behind \<^verbatim>\<open>cv2.resize\<close>, the colour conversions, the edge detector and the
  distance transform, each taking the side length of the square sample it works on.
  Distances are \<^verbatim>\<open>float32\<close> values, given by the rationals they denote.
\<close>

record 'img cv2 =
  interpolate :: "'img \<Rightarrow> nat \<Rightarrow> rgb arr2"
  rgb2gray :: "nat \<Rightarrow> rgb arr2 \<Rightarrow> u8 arr2"
  rgb2hsv :: "nat \<Rightarrow> rgb arr2 \<Rightarrow> (u8 \<times> u8 \<times> u8) arr2"
  canny :: "nat \<Rightarrow> u8 arr2 \<Rightarrow> int \<Rightarrow> int \<Rightarrow> u8 arr2"
  distance_transform :: "nat \<Rightarrow> u8 arr2 \<Rightarrow> rat arr2"

text \<open>
  Modelled from the spec: \<^verbatim>\<open>cv2.resize(image, (r, r))\<close>, the Image Sampler, is library code
  outside the repository. The spec says it "fails with \<^verbatim>\<open>InvalidResolution\<close> if R \<open>\<le>\<close> 0" and
  otherwise produces a sample of size R by R.
\<close>

definition cv2_resize :: "'img cv2 \<Rightarrow> 'img \<Rightarrow> int \<Rightarrow> error + rgb arr2" where
  "cv2_resize cv img r =
     (if r \<le> 0 then Inl InvalidResolution else Inr (interpolate cv img (nat r)))"


section \<open>Height strategy\<close>

text \<open>\<^verbatim>\<open>heights = ((gray / 255.0) * max_height).astype(int)\<close>, one element.\<close>

definition heights_of :: "u8 \<Rightarrow> int \<Rightarrow> int" where
  "heights_of g max_height =
     astype_int (f64 (f64 (of_nat (unat g) / 255) * f64 (of_int max_height)))"

definition height_z_body :: "rgb \<Rightarrow> int \<Rightarrow> int \<Rightarrow> int \<Rightarrow> grids \<Rightarrow> error + grids" where
  "height_z_body px x y z = mark (x, y, z) px"

definition height_y_body ::
  "rgb arr2 \<Rightarrow> int arr2 \<Rightarrow> int \<Rightarrow> int \<Rightarrow> grids \<Rightarrow> error + grids" where
  "height_y_body resized heights x y s =
     (let height = heights (nat y) (nat x) in
      if height > 0 then for_each (py_range height) (height_z_body (resized (nat y) (nat x)) x y) s
      else Inr s)"

definition height_based_voxels :: "'img cv2 \<Rightarrow> 'img \<Rightarrow> int \<Rightarrow> int \<Rightarrow> error + grids" where
  "height_based_voxels cv img voxel_resolution max_height =
     and_then (cv2_resize cv img voxel_resolution) (\<lambda>resized.
       let gray = rgb2gray cv (nat voxel_resolution) resized;
           heights = (\<lambda>y x. heights_of (gray y x) max_height)
       in and_then (new_grids voxel_resolution max_height)
            (for_each (py_range voxel_resolution)
               (\<lambda>x. for_each (py_range voxel_resolution) (height_y_body resized heights x))))"


section \<open>Hue-layer strategy\<close>

text \<open>
  \<^verbatim>\<open>hue_layer = int((pixel_hsv[0] / 180.0) * layers)\<close> followed by
  \<^verbatim>\<open>hue_layer = min(hue_layer, layers - 1)\<close>.
\<close>

definition hue_layer_of :: "u8 \<Rightarrow> int \<Rightarrow> int" where
  "hue_layer_of h layers =
     min (astype_int (f64 (f64 (of_nat (unat h) / 180) * f64 (of_int layers)))) (layers - 1)"

definition color_y_body ::
  "rgb arr2 \<Rightarrow> (u8 \<times> u8 \<times> u8) arr2 \<Rightarrow> int \<Rightarrow> int \<Rightarrow> int \<Rightarrow> grids \<Rightarrow> error + grids" where
  "color_y_body resized hsv layers x y s =
     (let pixel_rgb = resized (nat y) (nat x);
          pixel_hsv = hsv (nat y) (nat x);
          hue_layer = hue_layer_of (fst pixel_hsv) layers
      in if 30 < fst (snd pixel_hsv) \<and> 30 < snd (snd pixel_hsv)
         then mark (x, y, hue_layer) pixel_rgb s
         else Inr s)"

definition color_layered_voxels :: "'img cv2 \<Rightarrow> 'img \<Rightarrow> int \<Rightarrow> int \<Rightarrow> error + grids" where
  "color_layered_voxels cv img voxel_resolution layers =
     and_then (cv2_resize cv img voxel_resolution) (\<lambda>resized.
       let hsv = rgb2hsv cv (nat voxel_resolution) resized
       in and_then (new_grids voxel_resolution layers)
            (for_each (py_range voxel_resolution)
               (\<lambda>x. for_each (py_range voxel_resolution) (color_y_body resized hsv layers x))))"


section \<open>Structure-depth strategy\<close>

text \<open>\<^verbatim>\<open>np.max\<close> of a square array of side \<open>n\<close>; an empty array raises \<^verbatim>\<open>ValueError\<close>.\<close>

definition np_max :: "nat \<Rightarrow> rat arr2 \<Rightarrow> error + rat" where
  "np_max n a =
     (if n = 0 then Inl ValueError
      else Inr (fold max (concat (map (\<lambda>y. map (a y) [0..<n]) [0..<n])) (a 0 0)))"

text \<open>
  \<^verbatim>\<open>(dist_transform / max_dist * (depth_levels - 1)).astype(int)\<close>, one element. The array
  and \<^verbatim>\<open>max_dist\<close> are \<^verbatim>\<open>float32\<close>, and the Python integer takes the array's type, so both
  operations round to \<^verbatim>\<open>float32\<close>.
\<close>

definition depth_of :: "rat \<Rightarrow> rat \<Rightarrow> int \<Rightarrow> int" where
  "depth_of d max_dist depth_levels =
     astype_int (f32 (f32 (d / max_dist) * f32 (of_int (depth_levels - 1))))"

text \<open>\<^verbatim>\<open>color_intensity = 1.0 - (z / max(depth_levels, 1)) * 0.5\<close>\<close>

definition color_intensity :: "int \<Rightarrow> int \<Rightarrow> rat" where
  "color_intensity z depth_levels =
     f64 (1 - f64 (f64 (of_int z / of_int (max depth_levels 1)) * (1 / 2)))"

text \<open>\<^verbatim>\<open>(pixel_color * color_intensity).astype(np.uint8)\<close>\<close>

definition darken :: "rgb \<Rightarrow> rat \<Rightarrow> rgb" where
  "darken pixel_color ci = (case pixel_color of (r, g, b) \<Rightarrow>
     (astype_u8 (f64 (of_nat (unat r) * ci)),
      astype_u8 (f64 (of_nat (unat g) * ci)),
      astype_u8 (f64 (of_nat (unat b) * ci))))"

definition structure_z_body :: "rgb \<Rightarrow> int \<Rightarrow> int \<Rightarrow> int \<Rightarrow> int \<Rightarrow> grids \<Rightarrow> error + grids" where
  "structure_z_body pixel_color depth_levels x y z =
     mark (x, y, z) (darken pixel_color (color_intensity z depth_levels))"

definition structure_y_body ::
  "rgb arr2 \<Rightarrow> int arr2 \<Rightarrow> int \<Rightarrow> int \<Rightarrow> int \<Rightarrow> grids \<Rightarrow> error + grids" where
  "structure_y_body resized depth_map depth_levels x y s =
     (let max_depth = depth_map (nat y) (nat x);
          pixel_color = resized (nat y) (nat x)
      in for_each (py_range (max_depth + 1)) (structure_z_body pixel_color depth_levels x y) s)"

definition structure_based_voxels :: "'img cv2 \<Rightarrow> 'img \<Rightarrow> int \<Rightarrow> int \<Rightarrow> error + grids" where
  "structure_based_voxels cv img voxel_resolution depth_levels =
     and_then (cv2_resize cv img voxel_resolution) (\<lambda>resized.
       let gray_resized = rgb2gray cv (nat voxel_resolution) resized;
           edges = canny cv (nat voxel_resolution) gray_resized 50 150;
           dist_transform = distance_transform cv (nat voxel_resolution) (\<lambda>y x. 255 - edges y x)
       in and_then (np_max (nat voxel_resolution) dist_transform) (\<lambda>max_dist.
            let depth_map = (if max_dist > 0
                             then (\<lambda>y x. depth_of (dist_transform y x) max_dist depth_levels)
                             else (\<lambda>y x. 0))
            in and_then (new_grids voxel_resolution depth_levels)
                 (for_each (py_range voxel_resolution)
                    (\<lambda>x. for_each (py_range voxel_resolution)
                           (structure_y_body resized depth_map depth_levels x)))))"


section \<open>Strategy results, the orchestrator and the encoder\<close>

text \<open>The dictionary \<^verbatim>\<open>convert_image\<close> builds for one method: voxels, colors, count, method.\<close>

record voxel_data =
  vd_voxels :: "bool ndarray3"
  vd_colors :: "rgb ndarray3"
  vd_count :: nat
  vd_method :: string

text \<open>\<^verbatim>\<open>np.sum(voxels)\<close>: the number of occupied cells.\<close>

definition np_sum :: "bool ndarray3 \<Rightarrow> nat" where
  "np_sum a = (case shape a of (sx, sy, sz) \<Rightarrow>
     sum_list (map (\<lambda>x. sum_list (map (\<lambda>y. sum_list (map (\<lambda>z. if cell a (x, y, z) then 1 else 0)
       [0..<sz])) [0..<sy])) [0..<sx]))"

text \<open>
  What the file system and the image decoder answer: \<^verbatim>\<open>os.path.exists\<close>, and \<^verbatim>\<open>cv2.imread\<close>
  followed by the conversion to RGB (\<open>None\<close> when the file cannot be decoded, in which case
  the conversion raises).
\<close>

record 'img world =
  path_exists :: "string \<Rightarrow> bool"
  imread :: "string \<Rightarrow> 'img option"

text \<open>The work \<^verbatim>\<open>convert_image\<close> has done, in order.\<close>

datatype event = ImageLoaded string | StrategyRun string

text \<open>\<^verbatim>\<open>kwargs.get(key, default)\<close>\<close>

definition kwargs_get :: "(string \<rightharpoonup> int) \<Rightarrow> string \<Rightarrow> int \<Rightarrow> int" where
  "kwargs_get kwargs key dflt = (case kwargs key of None \<Rightarrow> dflt | Some v \<Rightarrow> v)"

text \<open>
  The \<^verbatim>\<open>if\<close>/\<^verbatim>\<open>elif\<close> chain of the loop body. It has no \<^verbatim>\<open>else\<close>: for any other method name no
  branch runs, and the local variables \<^verbatim>\<open>voxels\<close>, \<^verbatim>\<open>colors\<close> keep what an earlier iteration
  bound, if any (\<open>bound\<close>).
\<close>

definition run_method ::
  "'img cv2 \<Rightarrow> 'img \<Rightarrow> (string \<rightharpoonup> int) \<Rightarrow> string \<Rightarrow> grids option \<Rightarrow> event list \<times> (error + grids)" where
  "run_method cv img_rgb kwargs m bound =
     (if m = ''height'' then
        ([StrategyRun m],
         height_based_voxels cv img_rgb
           (kwargs_get kwargs ''voxel_resolution'' 64) (kwargs_get kwargs ''max_height'' 32))
      else if m = ''color'' then
        ([StrategyRun m],
         color_layered_voxels cv img_rgb
           (kwargs_get kwargs ''voxel_resolution'' 48) (kwargs_get kwargs ''layers'' 16))
      else if m = ''structure'' then
        ([StrategyRun m],
         structure_based_voxels cv img_rgb
           (kwargs_get kwargs ''voxel_resolution'' 56) (kwargs_get kwargs ''depth_levels'' 24))
      else ([], case bound of None \<Rightarrow> Inl UnboundLocalError | Some g \<Rightarrow> Inr g))"

text \<open>The loop \<^verbatim>\<open>for m in methods_to_run\<close>, filling \<^verbatim>\<open>results\<close>.\<close>

fun run_methods ::
  "'img cv2 \<Rightarrow> 'img \<Rightarrow> (string \<rightharpoonup> int) \<Rightarrow> string list \<Rightarrow> grids option
     \<Rightarrow> event list \<Rightarrow> (string \<rightharpoonup> voxel_data) \<Rightarrow> event list \<times> (error + (string \<rightharpoonup> voxel_data))" where
  "run_methods cv img_rgb kwargs [] bound trace results = (trace, Inr results)"
| "run_methods cv img_rgb kwargs (m # ms) bound trace results =
     (case run_method cv img_rgb kwargs m bound of
        (evs, Inl e) \<Rightarrow> (trace @ evs, Inl e)
      | (evs, Inr (voxels, colors)) \<Rightarrow>
          run_methods cv img_rgb kwargs ms (Some (voxels, colors)) (trace @ evs)
            (results(m \<mapsto> \<lparr>vd_voxels = voxels, vd_colors = colors,
                             vd_count = np_sum voxels, vd_method = m\<rparr>)))"

definition convert_image ::
  "'img world \<Rightarrow> 'img cv2 \<Rightarrow> string \<Rightarrow> string \<Rightarrow> (string \<rightharpoonup> int)
     \<Rightarrow> event list \<times> (error + (string \<rightharpoonup> voxel_data))" where
  "convert_image w cv image_path method kwargs =
     (if \<not> path_exists w image_path then ([], Inl FileNotFoundError)
      else case imread w image_path of
        None \<Rightarrow> ([ImageLoaded image_path], Inl Cv2Error)
      | Some img_rgb \<Rightarrow>
          let methods_to_run =
                (if method = ''all'' then [''height'', ''color'', ''structure''] else [method])
          in run_methods cv img_rgb kwargs methods_to_run None [ImageLoaded image_path] Map.empty)"

text \<open>
  \<^verbatim>\<open>np.where(voxels)\<close> with \<^verbatim>\<open>np.column_stack\<close>: the coordinates of the occupied cells, in the
  order of the array's memory (the last index runs fastest).
\<close>

definition np_where :: "bool ndarray3 \<Rightarrow> (nat \<times> nat \<times> nat) list" where
  "np_where a = (case shape a of (sx, sy, sz) \<Rightarrow>
     concat (map (\<lambda>x. concat (map (\<lambda>y. map (\<lambda>z. (x, y, z))
       (filter (\<lambda>z. cell a (x, y, z)) [0..<sz])) [0..<sy])) [0..<sx]))"

text \<open>\<^verbatim>\<open>colors[occupied]\<close>: the cells at a list of coordinates, all of which must exist.\<close>

definition take_cells :: "'a ndarray3 \<Rightarrow> (nat \<times> nat \<times> nat) list \<Rightarrow> error + 'a list" where
  "take_cells a idx =
     (if list_all (in_shape (shape a)) idx then Inr (map (cell a) idx) else Inl IndexError)"

text \<open>The arrays handed to \<^verbatim>\<open>np.savez_compressed\<close>.\<close>

record npz =
  npz_positions :: "(nat \<times> nat \<times> nat) list"
  npz_colors :: "rgb list"
  npz_grid_shape :: "nat \<times> nat \<times> nat"
  npz_method :: string

definition endswith :: "string \<Rightarrow> string \<Rightarrow> bool" where
  "endswith s suf =
     (length suf \<le> length s \<and> drop (length s - length suf) s = suf)"

text \<open>
  \<^verbatim>\<open>save_voxels\<close> returns the archive it wrote, if any. \<^verbatim>\<open>os.path.dirname\<close> of a path without a
  slash is empty, and \<^verbatim>\<open>os.makedirs('')\<close> raises \<^verbatim>\<open>FileNotFoundError\<close>. The class has no
  \<^verbatim>\<open>_save_binary_format\<close>, so the \<^verbatim>\<open>.bin\<close> branch raises \<^verbatim>\<open>AttributeError\<close>.
\<close>

definition save_voxels :: "voxel_data \<Rightarrow> string \<Rightarrow> error + npz option" where
  "save_voxels voxel_data output_path =
     (if CHR ''/'' \<notin> set output_path then Inl FileNotFoundError
      else if endswith output_path ''.npz'' then
        (let occupied = np_where (vd_voxels voxel_data)
         in and_then (take_cells (vd_colors voxel_data) occupied) (\<lambda>cs.
              Inr (Some \<lparr>npz_positions = occupied, npz_colors = cs,
                         npz_grid_shape = shape (vd_voxels voxel_data),
                         npz_method = vd_method voxel_data\<rparr>)))
      else if endswith output_path ''.bin'' then Inl AttributeError
      else Inr None)"

text \<open>
  The reconstruction the specification describes for the round trip: a grid of the declared
  shape, "set occupied at each listed coordinate, false elsewhere".
\<close>

definition reconstruct :: "npz \<Rightarrow> bool ndarray3" where
  "reconstruct p =
     \<lparr>shape = npz_grid_shape p,
      cell = fold (\<lambda>c g. g(c := True)) (npz_positions p) (\<lambda>_. False)\<rparr>"

text \<open>The flattened index of a coordinate in an array of the given shape.\<close>

definition ravel :: "nat \<times> nat \<times> nat \<Rightarrow> nat \<times> nat \<times> nat \<Rightarrow> nat" where
  "ravel sh c = (case sh of (sx, sy, sz) \<Rightarrow> case c of (x, y, z) \<Rightarrow> (x * sy + y) * sz + z)"


section \<open>Auxiliary notions for the proofs\<close>

text \<open>The grids after the cells of \<open>W\<close> have been filled, each cell \<open>c\<close> with the colour \<open>col c\<close>.\<close>

definition painted :: "nat \<times> nat \<times> nat \<Rightarrow> (nat \<times> nat \<times> nat) set \<Rightarrow> (nat \<times> nat \<times> nat \<Rightarrow> rgb) \<Rightarrow> grids" where
  "painted sh W col =
     (\<lparr>shape = sh, cell = (\<lambda>c. c \<in> W)\<rparr>,
      \<lparr>shape = sh, cell = (\<lambda>c. if c \<in> W then col c else (0, 0, 0))\<rparr>)"

text \<open>Grids reached from fresh ones by filling cells inside the shape.\<close>

definition is_painted :: "nat \<times> nat \<times> nat \<Rightarrow> (nat \<times> nat \<times> nat \<Rightarrow> rgb) \<Rightarrow> grids \<Rightarrow> bool" where
  "is_painted sh col s = (\<exists>W. W \<subseteq> Collect (in_shape sh) \<and> s = painted sh W col)"

text \<open>\<^verbatim>\<open>heights[y, x]\<close> as the height strategy computes it from the image.\<close>

definition height_at :: "'img cv2 \<Rightarrow> 'img \<Rightarrow> int \<Rightarrow> int \<Rightarrow> nat \<Rightarrow> nat \<Rightarrow> int" where
  "height_at cv img r h x y = heights_of (rgb2gray cv (nat r) (interpolate cv img (nat r)) y x) h"

text \<open>\<^verbatim>\<open>hsv[y, x]\<close> as the hue-layer strategy computes it from the image.\<close>

definition hsv_at :: "'img cv2 \<Rightarrow> 'img \<Rightarrow> int \<Rightarrow> nat \<Rightarrow> nat \<Rightarrow> u8 \<times> u8 \<times> u8" where
  "hsv_at cv img r x y = rgb2hsv cv (nat r) (interpolate cv img (nat r)) y x"

text \<open>
  \<^verbatim>\<open>dist_transform[y, x]\<close>, \<^verbatim>\<open>max_dist\<close> and \<^verbatim>\<open>depth_map[y, x]\<close> as the structure strategy computes
  them from the image.
\<close>

definition dist_at :: "'img cv2 \<Rightarrow> 'img \<Rightarrow> int \<Rightarrow> nat \<Rightarrow> nat \<Rightarrow> rat" where
  "dist_at cv img r x y =
     distance_transform cv (nat r)
       (\<lambda>y x. 255 - canny cv (nat r) (rgb2gray cv (nat r) (interpolate cv img (nat r))) 50 150 y x) y x"

definition max_dist_at :: "'img cv2 \<Rightarrow> 'img \<Rightarrow> int \<Rightarrow> rat" where
  "max_dist_at cv img r =
     fold max (concat (map (\<lambda>y. map (\<lambda>x. dist_at cv img r x y) [0..<nat r]) [0..<nat r]))
       (dist_at cv img r 0 0)"

definition depth_at :: "'img cv2 \<Rightarrow> 'img \<Rightarrow> int \<Rightarrow> int \<Rightarrow> nat \<Rightarrow> nat \<Rightarrow> int" where
  "depth_at cv img r depth_levels x y =
     (if 0 < max_dist_at cv img r
      then depth_of (dist_at cv img r x y) (max_dist_at cv img r) depth_levels
      else 0)"


section \<open>Concrete scenarios\<close>

text \<open>
  A stand-in for the image library on a uniform image: every pixel of the sample has the
  colour \<open>px\<close>, the grey value \<open>g\<close>, the hue, saturation and value \<open>hsv\<close>, and the distance \<open>d\<close>
  to the nearest edge.
\<close>

definition flat_cv :: "rgb \<Rightarrow> u8 \<Rightarrow> u8 \<times> u8 \<times> u8 \<Rightarrow> rat \<Rightarrow> unit cv2" where
  "flat_cv px g hsv d =
     \<lparr>interpolate = (\<lambda>_ _ _ _. px),
      rgb2gray = (\<lambda>_ _ _ _. g),
      rgb2hsv = (\<lambda>_ _ _ _. hsv),
      canny = (\<lambda>_ _ _ _ _ _. 0),
      distance_transform = (\<lambda>_ _ _ _. d)\<rparr>"

text \<open>
  The same uniform image seen through a library that reports those values only inside the
  \<open>n\<close> by \<open>n\<close> sample and zeros outside it.
\<close>

definition cropped_cv :: "nat \<Rightarrow> rgb \<Rightarrow> u8 \<Rightarrow> u8 \<times> u8 \<times> u8 \<Rightarrow> rat \<Rightarrow> unit cv2" where
  "cropped_cv n px g hsv d =
     \<lparr>interpolate = (\<lambda>_ _ y x. if y < n \<and> x < n then px else (0, 0, 0)),
      rgb2gray = (\<lambda>_ _ y x. if y < n \<and> x < n then g else 0),
      rgb2hsv = (\<lambda>_ _ y x. if y < n \<and> x < n then hsv else (0, 0, 0)),
      canny = (\<lambda>_ _ _ _ _ _. 0),
      distance_transform = (\<lambda>_ _ y x. if y < n \<and> x < n then d else 0)\<rparr>"

text \<open>A file system holding one readable image.\<close>

definition one_file_world :: "string \<Rightarrow> 'img \<Rightarrow> 'img world" where
  "one_file_world path img =
     \<lparr>path_exists = (\<lambda>p. p = path), imread = (\<lambda>p. if p = path then Some img else None)\<rparr>"

text \<open>A grid of shape \<open>(3, 3, 4)\<close> with three occupied cells, and the colours that go with it.\<close>

definition sample_voxels :: "bool ndarray3" where
  "sample_voxels =
     \<lparr>shape = (3, 3, 4),
      cell = (\<lambda>c. c = (0, 0, 0) \<or> c = (0, 2, 3) \<or> c = (2, 0, 2))\<rparr>"

definition sample_colors :: "rgb ndarray3" where
  "sample_colors =
     \<lparr>shape = (3, 3, 4),
      cell = (\<lambda>c. if c = (0, 0, 0) \<or> c = (0, 2, 3) \<or> c = (2, 0, 2) then (9, 8, 7) else (0, 0, 0))\<rparr>"

definition sample_data :: voxel_data where
  "sample_data =
     \<lparr>vd_voxels = sample_voxels, vd_colors = sample_colors, vd_count = 3, vd_method = ''height''\<rparr>"

section \<open>Properties of rounding\<close>


lemma rhe_of_int: "round_half_even (of_int k) = k"
  by (simp add: round_half_even_def)

lemma rhe_nonneg: "0 \<le> q \<Longrightarrow> 0 \<le> round_half_even q"
  by (auto simp: round_half_even_def Let_def)

lemma rhe_le_int: "q \<le> of_int k \<Longrightarrow> round_half_even q \<le> k"
proof -
  assume h: "q \<le> of_int k"
  then have fl: "\<lfloor>q\<rfloor> \<le> k" by (simp add: floor_le_iff)
  show ?thesis
  proof (cases "q = of_int \<lfloor>q\<rfloor>")
    case True
    then show ?thesis using fl by (simp add: round_half_even_def Let_def)
  next
    case False
    have "of_int \<lfloor>q\<rfloor> \<le> q" by (rule of_int_floor_le)
    with False have "of_int \<lfloor>q\<rfloor> < q" by (simp only: order_le_neq_trans[OF _ not_sym])
    then have "of_int \<lfloor>q\<rfloor> < (of_int k :: rat)" using h by linarith
    then have "\<lfloor>q\<rfloor> < k" by simp
    then show ?thesis by (auto simp: round_half_even_def Let_def)
  qed
qed

lemma expo_lower:
  assumes "0 < x" shows "2 powi expo x \<le> x"
proof -
  obtain a b where q: "quotient_of x = (a, b)" by force
  have b: "0 < b" using quotient_of_denom_pos[OF q] .
  have x: "x = of_int a / of_int b" using quotient_of_div[OF q] .
  have a: "0 < a" using assms b x by (simp add: zero_less_divide_iff)
  define k where "k = bitlen a - bitlen b"
  show ?thesis
  proof (cases "2 powi k * of_int b \<le> (of_int a :: rat)")
    case True
    then have "expo x = k" by (simp add: expo_def q k_def)
    moreover have "2 powi k \<le> x" using True b by (simp add: x pos_le_divide_eq)
    ultimately show ?thesis by simp
  next
    case False
    then have e: "expo x = k - 1" by (simp add: expo_def q k_def)
    have la: "1 \<le> bitlen a" using a bitlen_eq_zero_iff[of a] bitlen_nonneg[of a] by linarith
    have lb: "1 \<le> bitlen b" using b bitlen_eq_zero_iff[of b] bitlen_nonneg[of b] by linarith
    have "(2::int) ^ nat (bitlen a - 1) \<le> a" using bitlen_bounds[OF a] by simp
    then have "(of_int ((2::int) ^ nat (bitlen a - 1)) :: rat) \<le> of_int a" by (simp only: of_int_le_iff)
    then have A: "(2::rat) powi (bitlen a - 1) \<le> of_int a" using la by (simp add: power_int_def)
    have "b < 2 ^ nat (bitlen b)" using bitlen_bounds[OF b] by simp
    then have "(of_int b :: rat) < of_int (2 ^ nat (bitlen b))" by (simp only: of_int_less_iff)
    then have B: "(of_int b :: rat) < 2 powi (bitlen b)" using lb by (simp add: power_int_def)
    have "(2::rat) powi (k - 1) * of_int b \<le> 2 powi (k - 1) * 2 powi (bitlen b)"
      using B by (simp add: mult_left_mono)
    also have "\<dots> = 2 powi (bitlen a - 1)"
      by (simp add: k_def power_int_add[symmetric])
    finally have "(2::rat) powi (k - 1) * of_int b \<le> of_int a" using A by linarith
    then have "2 powi (k - 1) \<le> x" using b by (simp add: x pos_le_divide_eq)
    then show ?thesis using e by simp
  qed
qed


lemma round_to_nonneg: "0 \<le> x \<Longrightarrow> 0 \<le> round_to p emin x"
  by (simp add: round_to_def Let_def rhe_nonneg zero_le_mult_iff)

lemma scaled_int:
  assumes "0 < x" "x \<le> of_int n" "n \<le> 2 ^ p" "0 < p" "emin \<le> 0"
  defines "s \<equiv> (2::rat) powi (max (expo x - int p + 1) emin)"
  shows "\<exists>N. of_int n = of_int N * s"
proof -
  define q where "q = max (expo x - int p + 1) emin"
  have s: "s = 2 powi q" by (simp add: s_def q_def)
  have "2 powi expo x \<le> (of_int n :: rat)" using expo_lower[OF assms(1)] assms(2) by linarith
  also have "(of_int n :: rat) \<le> of_int (2 ^ p)" using assms(3) by (simp only: of_int_le_iff)
  finally have le: "(2::rat) powi expo x \<le> 2 powi int p" by simp
  have ep: "expo x \<le> int p" by (rule power_int_le_imp_le_exp[OF _ le]) simp_all
  show ?thesis
  proof (cases "q \<le> 0")
    case True
    have "(of_int n :: rat) = of_int (n * 2 ^ nat (- q)) * 2 powi q"
      using True by (simp add: power_int_def power_inverse[symmetric] flip: power_mult_distrib)
    then show ?thesis unfolding s by blast
  next
    case False
    then have "q = 1" using ep assms(5) by (simp add: q_def max_def split: if_splits)
    moreover have e: "expo x = int p" using False ep assms(5) by (simp add: q_def max_def split: if_splits)
    have "(2::rat) ^ p \<le> x" using expo_lower[OF assms(1)] e by simp
    then have "(2::rat) ^ p \<le> of_int n" using assms(2) by (rule order_trans)
    then have "(of_int (2 ^ p) :: rat) \<le> of_int n" by simp
    then have "2 ^ p \<le> n" by (simp only: of_int_le_iff)
    then have "n = 2 ^ p" using assms(3) by simp
    then have "(of_int n :: rat) = of_int (2 ^ (p - 1)) * 2 powi 1" using assms(4)
      by (cases p) simp_all
    ultimately show ?thesis unfolding s by metis
  qed
qed

lemma round_to_le_int:
  assumes "x \<le> of_int n" "0 \<le> n" "n \<le> 2 ^ p" "0 < p" "emin \<le> 0"
  shows "round_to p emin x \<le> of_int n"
proof (cases "0 < x")
  case False
  then have "x \<le> 0" by simp
  have "0 \<le> round_half_even (\<bar>x\<bar> / 2 powi (max (expo \<bar>x\<bar> - int p + 1) emin))"
    by (rule rhe_nonneg) simp
  then have "0 \<le> (of_int (round_half_even (\<bar>x\<bar> / 2 powi (max (expo \<bar>x\<bar> - int p + 1) emin)))
               * 2 powi (max (expo \<bar>x\<bar> - int p + 1) emin) :: rat)"
    by simp
  with \<open>x \<le> 0\<close> have "round_to p emin x \<le> 0"
    by (simp add: round_to_def Let_def sgn_if mult.assoc del: abs_of_nonpos)
  then show ?thesis using assms(2) by (meson of_int_0_le_iff order_trans)
next
  case True
  define s where "s = (2::rat) powi (max (expo x - int p + 1) emin)"
  have sp: "0 < s" by (simp add: s_def)
  obtain N where N: "of_int n = of_int N * s"
    using scaled_int[OF True assms(1) assms(3) assms(4) assms(5)] unfolding s_def by blast
  have "x / s \<le> of_int N" using assms(1) N sp by (simp add: pos_divide_le_eq)
  then have "round_half_even (x / s) \<le> N" by (rule rhe_le_int)
  then have "of_int (round_half_even (x / s)) * s \<le> of_int N * s"
    using sp by (simp add: mult_right_mono)
  then show ?thesis using True N by (simp add: round_to_def Let_def s_def)
qed

lemma round_to_of_int:
  assumes "0 \<le> n" "n \<le> 2 ^ p" "0 < p" "emin \<le> 0"
  shows "round_to p emin (of_int n) = of_int n"
proof (cases "n = 0")
  case True then show ?thesis by (simp add: round_to_def)
next
  case False
  then have pos: "0 < (of_int n :: rat)" using assms(1) by simp
  define s where "s = (2::rat) powi (max (expo (of_int n) - int p + 1) emin)"
  have sp: "0 < s" by (simp add: s_def)
  obtain N where N: "(of_int n :: rat) = of_int N * s"
    using scaled_int[OF pos order_refl assms(2) assms(3) assms(4)] unfolding s_def by blast
  have "of_int n / s = of_int N" using N sp by simp
  then have "round_half_even (of_int n / s) = N" by (simp add: rhe_of_int)
  then have "of_int (round_half_even (of_int n / s)) * s = (of_int n :: rat)"
    by (simp only: N[symmetric])
  moreover have "round_to p emin (of_int n) = of_int (round_half_even (of_int n / s)) * s"
    using pos assms(1) unfolding round_to_def Let_def s_def by (simp add: sgn_if)
  ultimately show ?thesis by simp
qed

text \<open>
  The result of \<open>round_to\<close> is a significand of at most \<open>p\<close> bits (or the next power of two)
  times the spacing of the binade of \<open>x\<close>, and it is within half that spacing of \<open>x\<close>.
\<close>


lemma expo_upper:
  assumes "0 < x" shows "x < 2 powi (expo x + 1)"
proof -
  obtain a b where q: "quotient_of x = (a, b)" by force
  have b: "0 < b" using quotient_of_denom_pos[OF q] .
  have x: "x = of_int a / of_int b" using quotient_of_div[OF q] .
  have a: "0 < a" using assms b x by (simp add: zero_less_divide_iff)
  define k where "k = bitlen a - bitlen b"
  show ?thesis
  proof (cases "2 powi k * of_int b \<le> (of_int a :: rat)")
    case False
    then have e: "expo x = k - 1" by (simp add: expo_def q k_def)
    from False have "(of_int a :: rat) < 2 powi k * of_int b" by simp
    then have "x < 2 powi k" using b by (simp add: x pos_divide_less_eq)
    then show ?thesis using e by simp
  next
    case True
    then have e: "expo x = k" by (simp add: expo_def q k_def)
    have la: "1 \<le> bitlen a" using a bitlen_eq_zero_iff[of a] bitlen_nonneg[of a] by linarith
    have lb: "1 \<le> bitlen b" using b bitlen_eq_zero_iff[of b] bitlen_nonneg[of b] by linarith
    have "a < 2 ^ nat (bitlen a)" using bitlen_bounds[OF a] by simp
    then have "(of_int a :: rat) < of_int (2 ^ nat (bitlen a))" by (simp only: of_int_less_iff)
    then have A: "(of_int a :: rat) < 2 powi (bitlen a)" using la by (simp add: power_int_def)
    have "(2::int) ^ nat (bitlen b - 1) \<le> b" using bitlen_bounds[OF b] by simp
    then have "(of_int ((2::int) ^ nat (bitlen b - 1)) :: rat) \<le> of_int b" by (simp only: of_int_le_iff)
    then have B: "(2::rat) powi (bitlen b - 1) \<le> of_int b" using lb by (simp add: power_int_def)
    have "(2::rat) powi (bitlen a) = 2 powi (k + 1) * 2 powi (bitlen b - 1)"
      by (simp add: k_def power_int_add[symmetric])
    also have "\<dots> \<le> 2 powi (k + 1) * of_int b"
      using B by (simp add: mult_left_mono)
    finally have "(of_int a :: rat) < 2 powi (k + 1) * of_int b" using A by linarith
    then have "x < 2 powi (k + 1)" using b by (simp add: x pos_divide_less_eq)
    then show ?thesis using e by simp
  qed
qed

lemma rhe_error: "\<bar>of_int (round_half_even q) - q\<bar> \<le> 1 / 2"
proof -
  define f where "f = \<lfloor>q\<rfloor>"
  define r where "r = q - of_int f"
  have r: "0 \<le> r" "r < 1" unfolding r_def f_def by linarith+
  have q: "q = of_int f + r" by (simp add: r_def)
  consider "round_half_even q = f" "r \<le> 1 / 2" | "round_half_even q = f + 1" "1 / 2 \<le> r"
    unfolding round_half_even_def Let_def f_def[symmetric] r_def[symmetric]
    by (cases "r < 1 / 2"; cases "1 / 2 < r"; cases "even f") auto
  then show ?thesis
  proof cases
    case 1
    then show ?thesis using r unfolding q by simp
  next
    case 2
    then show ?thesis using r unfolding q by simp
  qed
qed

lemma round_to_error:
  "\<bar>round_to p emin x - x\<bar> \<le> 2 powi (max (expo \<bar>x\<bar> - int p + 1) emin) / 2"
proof (cases "x = 0")
  case True
  then show ?thesis by (simp add: round_to_def)
next
  case False
  define s where "s = (2::rat) powi (max (expo \<bar>x\<bar> - int p + 1) emin)"
  define m where "m = round_half_even (\<bar>x\<bar> / s)"
  have sp: "0 < s" by (simp add: s_def)
  have r: "round_to p emin x = sgn x * (of_int m * s)"
    using False by (simp add: round_to_def Let_def s_def m_def mult.assoc)
  have "\<bar>of_int m - \<bar>x\<bar> / s\<bar> \<le> 1 / 2" unfolding m_def by (rule rhe_error)
  then have "\<bar>of_int m - \<bar>x\<bar> / s\<bar> * s \<le> 1 / 2 * s" using sp by (simp add: mult_right_mono)
  moreover have "\<bar>of_int m - \<bar>x\<bar> / s\<bar> * s = \<bar>of_int m * s - \<bar>x\<bar>\<bar>"
  proof -
    have "\<bar>of_int m - \<bar>x\<bar> / s\<bar> * s = \<bar>(of_int m - \<bar>x\<bar> / s) * s\<bar>"
      using sp by (simp add: abs_mult)
    also have "(of_int m - \<bar>x\<bar> / s) * s = of_int m * s - \<bar>x\<bar>"
      using sp by (simp add: left_diff_distrib)
    finally show ?thesis .
  qed
  ultimately have e: "\<bar>of_int m * s - \<bar>x\<bar>\<bar> \<le> s / 2" by simp
  have "\<bar>round_to p emin x - x\<bar> = \<bar>of_int m * s - \<bar>x\<bar>\<bar>"
  proof (cases "0 < x")
    case True
    then show ?thesis by (simp add: r)
  next
    case neg: False
    then have "x < 0" using False by simp
    then show ?thesis by (simp add: r abs_minus_commute[of "of_int m * s"] sgn_if)
  qed
  then show ?thesis using e by (simp add: s_def)
qed

lemma round_to_significand:
  assumes "x \<noteq> 0"
  shows "\<exists>m. round_to p emin x = sgn x * of_int m * 2 powi (max (expo \<bar>x\<bar> - int p + 1) emin)
           \<and> 0 \<le> m \<and> m \<le> 2 ^ p"
proof -
  define s where "s = (2::rat) powi (max (expo \<bar>x\<bar> - int p + 1) emin)"
  define m where "m = round_half_even (\<bar>x\<bar> / s)"
  have sp: "0 < s" by (simp add: s_def)
  have ax: "0 < \<bar>x\<bar>" using assms by simp
  have "2 powi (expo \<bar>x\<bar> - int p + 1) \<le> s" unfolding s_def by (rule power_int_increasing) simp_all
  then have "2 powi (expo \<bar>x\<bar> + 1) / 2 powi int p \<le> s"
    by (simp add: power_int_diff power_int_add)
  moreover have "\<bar>x\<bar> / 2 powi int p < 2 powi (expo \<bar>x\<bar> + 1) / 2 powi int p"
    using expo_upper[OF ax] by (intro divide_strict_right_mono) simp_all
  ultimately have "\<bar>x\<bar> / 2 powi int p < s" by linarith
  then have "\<bar>x\<bar> < s * 2 ^ p" by (simp add: pos_divide_less_eq)
  then have "\<bar>x\<bar> / s < of_int (2 ^ p)" using sp by (simp add: pos_divide_less_eq mult.commute)
  then have "\<bar>x\<bar> / s \<le> of_int (2 ^ p)" by simp
  then have "m \<le> 2 ^ p" unfolding m_def by (rule rhe_le_int)
  moreover have "0 \<le> m" unfolding m_def by (rule rhe_nonneg) (use sp in simp)
  moreover have "round_to p emin x = sgn x * of_int m * s"
    using assms by (simp add: round_to_def Let_def s_def m_def)
  ultimately show ?thesis unfolding s_def by blast
qed

text \<open>
  A value that rounding has produced bounds the rounding of everything below it, and rounding
  it again changes nothing.
\<close>

lemma round_to_nonpos: "x \<le> 0 \<Longrightarrow> round_to p emin x \<le> 0"
proof -
  assume x: "x \<le> 0"
  have "0 \<le> round_half_even (\<bar>x\<bar> / 2 powi (max (expo \<bar>x\<bar> - int p + 1) emin))"
    by (rule rhe_nonneg) simp
  then have "0 \<le> (of_int (round_half_even (\<bar>x\<bar> / 2 powi (max (expo \<bar>x\<bar> - int p + 1) emin)))
               * 2 powi (max (expo \<bar>x\<bar> - int p + 1) emin) :: rat)"
    by simp
  with x show ?thesis
    by (simp add: round_to_def Let_def sgn_if mult.assoc del: abs_of_nonpos)
qed

lemma power_int_split:
  assumes "a \<le> b"
  shows "(2::rat) powi b = of_int (2 ^ nat (b - a)) * 2 powi a"
proof -
  have "(2::rat) powi b = 2 powi (int (nat (b - a)) + a)" using assms by simp
  also have "\<dots> = 2 powi int (nat (b - a)) * 2 powi a" by (rule power_int_add) simp
  also have "(2::rat) powi int (nat (b - a)) = of_int (2 ^ nat (b - a))"
    by (simp only: power_int_of_nat of_int_power of_int_numeral)
  finally show ?thesis .
qed

lemma two_powi_le_D:
  assumes "(2::rat) powi m \<le> 2 powi n" shows "m \<le> n"
proof (rule ccontr)
  assume "\<not> m \<le> n"
  then have "n + 1 \<le> m" by simp
  then have "(2::rat) powi (n + 1) \<le> 2 powi m" by (rule power_int_increasing) simp
  moreover have "(2::rat) powi (n + 1) = 2 powi n * 2" by (simp add: power_int_add)
  moreover have "(0::rat) < 2 powi n" by simp
  ultimately show False using assms by linarith
qed

lemma spacing_divides:
  assumes "0 < p" "0 < y" "0 < x" "x \<le> round_to p emin y"
  shows "\<exists>N. round_to p emin y = of_int N * 2 powi (max (expo x - int p + 1) emin)"
proof -
  define a where "a = max (expo x - int p + 1) emin"
  define b where "b = max (expo y - int p + 1) emin"
  obtain m where F: "round_to p emin y = of_int m * 2 powi b" and m: "0 \<le> m" "m \<le> 2 ^ p"
    using round_to_significand[of y p emin] assms(2) unfolding b_def by auto
  show ?thesis unfolding a_def[symmetric]
  proof (cases "a \<le> b")
    case True
    have "round_to p emin y = of_int (m * 2 ^ nat (b - a)) * 2 powi a"
      unfolding F power_int_split[OF True] by simp
    then show "\<exists>N. round_to p emin y = of_int N * 2 powi a" by blast
  next
    case False
    then have ba: "b < a" by simp
    have "emin \<le> b" by (simp add: b_def)
    then have a: "a = expo x - int p + 1" using ba by (simp add: a_def max_def split: if_splits)
    have "(of_int m :: rat) \<le> of_int (2 ^ p)" using m(2) by (simp only: of_int_le_iff)
    then have "(of_int m :: rat) * 2 powi b \<le> of_int (2 ^ p) * 2 powi b"
      by (intro mult_right_mono) simp_all
    also have "\<dots> = 2 powi (int p + b)" by (simp add: power_int_add)
    finally have Fle: "round_to p emin y \<le> 2 powi (int p + b)" unfolding F .
    have "2 powi expo x \<le> x" by (rule expo_lower[OF assms(3)])
    then have xF: "2 powi expo x \<le> round_to p emin y" using assms(4) by linarith
    then have "(2::rat) powi expo x \<le> 2 powi (int p + b)" using Fle by linarith
    then have "expo x \<le> int p + b" by (rule two_powi_le_D)
    then have ab: "a = b + 1" and e: "expo x = int p + b" using ba a by simp_all
    have "(2::rat) powi (int p + b) \<le> of_int m * 2 powi b" using xF unfolding e F .
    then have "of_int (2 ^ p) * (2::rat) powi b \<le> of_int m * 2 powi b" by (simp add: power_int_add)
    then have "(of_int (2 ^ p) :: rat) \<le> of_int m" by (simp only: mult_le_cancel_right_pos zero_less_power_int zero_less_numeral)
    then have "2 ^ p \<le> m" by (simp only: of_int_le_iff)
    then have mp: "m = 2 ^ p" using m(2) by simp
    obtain k where k: "p = Suc k" using assms(1) by (cases p) simp_all
    have "of_int m * (2::rat) powi b = of_int (2 ^ k) * 2 powi a"
      unfolding mp ab k by (simp add: power_int_add)
    then have "round_to p emin y = of_int (2 ^ k) * 2 powi a"
      using F by (rule back_subst[where P="\<lambda>v. round_to p emin y = v", rotated])
    then show "\<exists>N. round_to p emin y = of_int N * 2 powi a" by blast
  qed
qed

lemma round_to_le_rounded:
  assumes "0 < p" "0 < y" "x \<le> round_to p emin y"
  shows "round_to p emin x \<le> round_to p emin y"
proof (cases "0 < x")
  case False
  then have "round_to p emin x \<le> 0" by (intro round_to_nonpos) simp
  moreover have "0 \<le> round_to p emin y" by (rule round_to_nonneg) (use assms(2) in simp)
  ultimately show ?thesis by linarith
next
  case True
  define s where "s = (2::rat) powi (max (expo x - int p + 1) emin)"
  have sp: "0 < s" by (simp add: s_def)
  obtain N where N: "round_to p emin y = of_int N * s"
    using spacing_divides[OF assms(1,2) True assms(3)] unfolding s_def by blast
  have "x / s \<le> of_int N" using assms(3) sp unfolding N by (simp add: pos_divide_le_eq)
  then have "round_half_even (x / s) \<le> N" by (rule rhe_le_int)
  then have "of_int (round_half_even (x / s)) * s \<le> of_int N * s"
    using sp by (simp add: mult_right_mono)
  moreover have "round_to p emin x = of_int (round_half_even (x / s)) * s"
    using True by (simp add: round_to_def Let_def s_def)
  ultimately show ?thesis unfolding N by simp
qed

lemma round_to_idem:
  assumes "0 < p" "0 < y"
  shows "round_to p emin (round_to p emin y) = round_to p emin y"
proof (cases "round_to p emin y = 0")
  case True
  then show ?thesis by (simp add: round_to_def)
next
  case False
  define F where "F = round_to p emin y"
  have "0 \<le> F" unfolding F_def by (rule round_to_nonneg) (use assms(2) in simp)
  then have Fp: "0 < F" using False by (simp add: F_def)
  define s where "s = (2::rat) powi (max (expo F - int p + 1) emin)"
  have sp: "0 < s" by (simp add: s_def)
  obtain N where N: "F = of_int N * s"
    using spacing_divides[OF assms(1,2) Fp[unfolded F_def] order_refl] unfolding s_def F_def by blast
  have "F / s = of_int N" using sp unfolding N by simp
  then have "round_half_even (F / s) = N" by (simp add: rhe_of_int)
  moreover have "round_to p emin F = of_int (round_half_even (F / s)) * s"
    using Fp by (simp add: round_to_def Let_def s_def)
  ultimately show ?thesis unfolding F_def[symmetric] using N by simp
qed

text \<open>In the normal range, rounding to binary64 changes a value by at most one part in \<open>2^53\<close>.\<close>

lemma expo_ge:
  assumes "0 < x" "2 powi k \<le> x" shows "k \<le> expo x"
proof (rule ccontr)
  assume "\<not> k \<le> expo x"
  then have "expo x + 1 \<le> k" by simp
  then have "(2::rat) powi (expo x + 1) \<le> 2 powi k" by (rule power_int_increasing) simp
  then show False using assms(2) expo_upper[OF assms(1)] by linarith
qed

lemma f64_relative_error:
  assumes "2 powi (- 1022) \<le> x"
  shows "\<bar>f64 x - x\<bar> \<le> x * (1 / 2 ^ 53)"
proof -
  have "(0::rat) < 2 powi (- 1022)" by simp
  then have x: "0 < x" using assms by linarith
  have e: "- 1022 \<le> expo x" using x assms by (rule expo_ge)
  have m: "max (expo \<bar>x\<bar> - int 53 + 1) (- 1074) = expo x - 52" using e x by simp
  have "\<bar>f64 x - x\<bar> \<le> 2 powi (expo x - 52) / 2"
    using round_to_error[of 53 "- 1074" x] unfolding f64_def m .
  also have "\<dots> = 2 powi (expo x) * (1 / 2 ^ 53)"
    by (simp add: power_int_diff)
  also have "\<dots> \<le> x * (1 / 2 ^ 53)"
    using expo_lower[OF x] by (simp add: mult_right_mono)
  finally show ?thesis .
qed


section \<open>Loops and grid writes\<close>


lemma and_then_Inr [simp]: "and_then (Inr v) f = f v"
  by (simp add: and_then_def)

lemma and_then_Inl [simp]: "and_then (Inl e) f = Inl e"
  by (simp add: and_then_def)

lemma and_then_eq_Inr: "and_then m f = Inr r \<longleftrightarrow> (\<exists>v. m = Inr v \<and> f v = Inr r)"
  by (cases m) simp_all

lemma for_each_append: "for_each (xs @ ys) body s = and_then (for_each xs body s) (for_each ys body)"
proof (induction xs arbitrary: s)
  case Nil
  show ?case by simp
next
  case (Cons i xs)
  show ?case by (cases "body i s") (simp_all add: Cons.IH)
qed

lemma py_range_Suc: "py_range (int (Suc k)) = py_range (int k) @ [int k]"
  unfolding py_range_def nat_int by simp

lemma py_range_nonpos: "n \<le> 0 \<Longrightarrow> py_range n = []"
  by (simp add: py_range_def)

lemma set_py_range: "set (py_range n) = {i. 0 \<le> i \<and> i < n}"
proof -
  have "set (py_range n) = int ` {0..<nat n}" by (simp add: py_range_def)
  also have "\<dots> = {i. 0 \<le> i \<and> i < n}"
  proof (rule set_eqI)
    fix i show "i \<in> int ` {0..<nat n} \<longleftrightarrow> i \<in> {i. 0 \<le> i \<and> i < n}"
    proof
      assume "i \<in> int ` {0..<nat n}" then show "i \<in> {i. 0 \<le> i \<and> i < n}" by auto
    next
      assume "i \<in> {i. 0 \<le> i \<and> i < n}"
      then have "i = int (nat i)" "nat i \<in> {0..<nat n}" by auto
      then show "i \<in> int ` {0..<nat n}" by (rule image_eqI)
    qed
  qed
  finally show ?thesis .
qed

lemma for_each_preserves:
  assumes "for_each xs body s = Inr t" and "P s"
    and "\<And>i s s'. i \<in> set xs \<Longrightarrow> P s \<Longrightarrow> body i s = Inr s' \<Longrightarrow> P s'"
  shows "P t"
  using assms
proof (induction xs arbitrary: s)
  case Nil
  then show ?case by simp
next
  case (Cons i xs)
  from Cons.prems(1) obtain s1 where s1: "body i s = Inr s1" and r: "for_each xs body s1 = Inr t"
    by (auto simp: and_then_eq_Inr)
  have "P s1" using Cons.prems(3)[OF _ Cons.prems(2) s1] by simp
  show ?case
  proof (rule Cons.IH[OF r \<open>P s1\<close>])
    fix j u u' assume "j \<in> set xs" "P u" "body j u = Inr u'"
    then show "P u'" using Cons.prems(3)[of j u u'] by simp
  qed
qed

lemma for_each_cong:
  assumes "\<And>i s. i \<in> set xs \<Longrightarrow> f i s = g i s"
  shows "for_each xs f s = for_each xs g s"
  using assms
proof (induction xs arbitrary: s)
  case Nil
  show ?case by simp
next
  case (Cons i xs)
  have "f i s = g i s" using Cons.prems by simp
  moreover have "for_each xs f = for_each xs g" using Cons by (intro ext) simp
  ultimately show ?case by simp
qed

lemma norm_index_ok: "i < n \<Longrightarrow> norm_index n (int i) = Inr i"
  by (simp add: norm_index_def)

lemma norm_index_high: "int n \<le> i \<Longrightarrow> norm_index n i = Inl IndexError"
  by (simp add: norm_index_def)

lemma new_grids_painted:
  "0 \<le> r \<Longrightarrow> 0 \<le> d \<Longrightarrow> new_grids r d = Inr (painted (nat r, nat r, nat d) {} col)"
  by (simp add: new_grids_def np_zeros_def painted_def)

lemma new_grids_negative: "0 \<le> r \<Longrightarrow> d < 0 \<Longrightarrow> new_grids r d = Inl ValueError"
  by (simp add: new_grids_def np_zeros_def)

lemma mark_painted:
  assumes "in_shape sh (x, y, z)" and "v = col (x, y, z)"
  shows "mark (int x, int y, int z) v (painted sh W col) = Inr (painted sh (insert (x, y, z) W) col)"
proof -
  obtain a b d where sh: "sh = (a, b, d)" by (cases sh)
  have r: "x < a" "y < b" "z < d" using assms(1) by (simp_all add: in_shape_def sh)
  show ?thesis
    by (auto simp: mark_def painted_def setitem_def sh norm_index_ok r assms(2) fun_eq_iff)
qed

lemma mark_index_error:
  assumes "sh = (a, b, d)" "x < a" "y < b" "int d \<le> z"
  shows "mark (int x, int y, z) v (painted sh W col) = Inl IndexError"
  by (simp add: mark_def painted_def setitem_def assms norm_index_ok norm_index_high)

lemma for_range_painted:
  assumes "\<And>k W. k < nat n \<Longrightarrow> body (int k) (painted sh W col) = Inr (painted sh (W \<union> A k) col)"
  shows "for_each (py_range n) body (painted sh W col) = Inr (painted sh (W \<union> (\<Union>k\<in>{..<nat n}. A k)) col)"
proof -
  have "m \<le> nat n \<Longrightarrow> for_each (py_range (int m)) body (painted sh W col)
          = Inr (painted sh (W \<union> (\<Union>k\<in>{..<m}. A k)) col)" for m
  proof (induction m)
    case 0
    show ?case by (simp add: py_range_def)
  next
    case (Suc m)
    then have m: "m < nat n" by simp
    have *: "W \<union> \<Union> (A ` {..<m}) \<union> A m = W \<union> \<Union> (A ` {..<Suc m})"
      by (auto simp: less_Suc_eq)
    show ?case using Suc assms[OF m] by (simp add: py_range_Suc for_each_append * del: of_nat_Suc)
  qed
  from this[of "nat n"] show ?thesis
    by (cases "0 \<le> n") (simp_all add: py_range_nonpos)
qed


lemma for_xy_painted:
  assumes "\<And>x y W. x < nat r \<Longrightarrow> y < nat r \<Longrightarrow>
             body (int x) (int y) (painted sh W col) = Inr (painted sh (W \<union> C x y) col)"
  shows "for_each (py_range r) (\<lambda>x. for_each (py_range r) (body x)) (painted sh W col)
           = Inr (painted sh (W \<union> (\<Union>x\<in>{..<nat r}. \<Union>y\<in>{..<nat r}. C x y)) col)"
proof (rule for_range_painted)
  fix x W assume x: "x < nat r"
  show "for_each (py_range r) (body (int x)) (painted sh W col)
          = Inr (painted sh (W \<union> (\<Union>y\<in>{..<nat r}. C x y)) col)"
    by (rule for_range_painted) (rule assms[OF x])
qed

text \<open>A loop fails when one of its iterations fails on every state the loop can reach.\<close>

lemma and_then_eq_Inl: "and_then m f = Inl e \<longleftrightarrow> m = Inl e \<or> (\<exists>v. m = Inr v \<and> f v = Inl e)"
  by (cases m) simp_all

lemma for_each_error_kind:
  assumes "for_each xs body s = Inl e'" and "P s"
    and "\<And>i u u'. i \<in> set xs \<Longrightarrow> P u \<Longrightarrow> body i u = Inr u' \<Longrightarrow> P u'"
    and "\<And>i u e''. i \<in> set xs \<Longrightarrow> P u \<Longrightarrow> body i u = Inl e'' \<Longrightarrow> e'' = e"
  shows "e' = e"
  using assms
proof (induction xs arbitrary: s)
  case Nil
  then show ?case by simp
next
  case (Cons i xs)
  show ?case
  proof (cases "body i s")
    case (Inl e2)
    then have "e' = e2" using Cons.prems(1) by simp
    moreover have "e2 = e" using Cons.prems(4)[OF _ Cons.prems(2) Inl] by simp
    ultimately show ?thesis by simp
  next
    case (Inr s1)
    then have r: "for_each xs body s1 = Inl e'" using Cons.prems(1) by simp
    have p: "P s1" using Cons.prems(3)[OF _ Cons.prems(2) Inr] by simp
    show ?thesis
    proof (rule Cons.IH[OF r p])
      fix j u u' assume "j \<in> set xs" "P u" "body j u = Inr u'"
      then show "P u'" using Cons.prems(3)[of j u u'] by simp
    next
      fix j u e'' assume "j \<in> set xs" "P u" "body j u = Inl e''"
      then show "e'' = e" using Cons.prems(4)[of j u e''] by simp
    qed
  qed
qed

lemma for_each_fails:
  assumes "P s"
    and "\<And>i u u'. i \<in> set xs \<Longrightarrow> P u \<Longrightarrow> body i u = Inr u' \<Longrightarrow> P u'"
    and "\<And>i u e'. i \<in> set xs \<Longrightarrow> P u \<Longrightarrow> body i u = Inl e' \<Longrightarrow> e' = e"
    and "k \<in> set xs" and "\<And>u. P u \<Longrightarrow> body k u = Inl e"
  shows "for_each xs body s = Inl e"
  using assms
proof (induction xs arbitrary: s)
  case Nil
  then show ?case by simp
next
  case (Cons i xs)
  show ?case
  proof (cases "body i s")
    case (Inl e2)
    have "e2 = e" using Cons.prems(3)[OF _ Cons.prems(1) Inl] by simp
    then show ?thesis using Inl by simp
  next
    case (Inr s1)
    have p: "P s1" using Cons.prems(2)[OF _ Cons.prems(1) Inr] by simp
    have "k \<noteq> i" using Cons.prems(5)[OF Cons.prems(1)] Inr by auto
    then have k: "k \<in> set xs" using Cons.prems(4) by simp
    have "for_each xs body s1 = Inl e"
    proof (rule Cons.IH[OF p _ _ k])
      fix j u u' assume "j \<in> set xs" "P u" "body j u = Inr u'"
      then show "P u'" using Cons.prems(2)[of j u u'] by simp
    next
      fix j u e' assume "j \<in> set xs" "P u" "body j u = Inl e'"
      then show "e' = e" using Cons.prems(3)[of j u e'] by simp
    next
      fix u assume "P u" then show "body k u = Inl e" by (rule Cons.prems(5))
    qed
    then show ?thesis using Inr by simp
  qed
qed

lemma mark_error: "mark idx v s = Inl e \<Longrightarrow> e = IndexError"
  by (auto simp: mark_def setitem_def norm_index_def and_then_eq_Inl split: prod.splits if_splits)


section \<open>Bounds on heights, hue layers and depths\<close>

lemma f64_nonneg: "0 \<le> v \<Longrightarrow> 0 \<le> f64 v"
  by (simp add: f64_def round_to_nonneg)

lemma f64_le_int: "v \<le> of_int n \<Longrightarrow> 0 \<le> n \<Longrightarrow> n \<le> 2 ^ 53 \<Longrightarrow> f64 v \<le> of_int n"
  unfolding f64_def by (rule round_to_le_int) simp_all

lemma f64_of_int: "0 \<le> n \<Longrightarrow> n \<le> 2 ^ 53 \<Longrightarrow> f64 (of_int n) = of_int n"
  unfolding f64_def by (rule round_to_of_int) simp_all

lemma f32_nonneg: "0 \<le> v \<Longrightarrow> 0 \<le> f32 v"
  by (simp add: f32_def round_to_nonneg)

lemma f32_le_int: "v \<le> of_int n \<Longrightarrow> 0 \<le> n \<Longrightarrow> n \<le> 2 ^ 24 \<Longrightarrow> f32 v \<le> of_int n"
  unfolding f32_def by (rule round_to_le_int) simp_all

lemma f32_of_int: "0 \<le> n \<Longrightarrow> n \<le> 2 ^ 24 \<Longrightarrow> f32 (of_int n) = of_int n"
  unfolding f32_def by (rule round_to_of_int) simp_all

lemma astype_int_nonneg: "0 \<le> v \<Longrightarrow> 0 \<le> astype_int v"
  by (simp add: astype_int_def)

lemma astype_int_le: "0 \<le> v \<Longrightarrow> v \<le> of_int n \<Longrightarrow> astype_int v \<le> n"
  by (simp add: astype_int_def floor_le_iff)

lemma unit_times_le:
  fixes a b :: rat
  assumes "0 \<le> a" "a \<le> 1" "0 \<le> b" shows "a * b \<le> b"
  using mult_right_mono[OF assms(2) assms(3)] by simp

lemma heights_of_bounds:
  assumes "0 \<le> H" "H \<le> 2 ^ 53"
  shows "0 \<le> heights_of g H" and "heights_of g H \<le> H"
proof -
  define a where "a = f64 (of_nat (unat g) / 255)"
  have "unat g < 256" using unsigned_less[of g] by simp
  then have "unat g \<le> 255" by simp
  then have "(of_nat (unat g) :: rat) \<le> of_nat 255" by (simp only: of_nat_le_iff)
  then have q: "(of_nat (unat g) / 255 :: rat) \<le> of_int 1" by (simp del: of_nat_unat)
  have a0: "0 \<le> a" unfolding a_def by (rule f64_nonneg) (simp del: of_nat_unat)
  have a1: "a \<le> 1" using f64_le_int[OF q] by (simp add: a_def)
  have b: "f64 (of_int H) = of_int H" using assms by (rule f64_of_int)
  have H0: "(0::rat) \<le> of_int H" using assms(1) by simp
  have p0: "0 \<le> a * of_int H" using a0 H0 by simp
  have p1: "a * of_int H \<le> of_int H" using a0 a1 H0 by (rule unit_times_le)
  have r0: "0 \<le> f64 (a * of_int H)" using p0 by (rule f64_nonneg)
  have r1: "f64 (a * of_int H) \<le> of_int H" using p1 assms by (rule f64_le_int)
  show "0 \<le> heights_of g H" using r0 unfolding heights_of_def b a_def[symmetric] by (rule astype_int_nonneg)
  show "heights_of g H \<le> H" using r0 r1 unfolding heights_of_def b a_def[symmetric] by (rule astype_int_le)
qed

lemma hue_layer_of_bounds:
  assumes "1 \<le> L"
  shows "0 \<le> hue_layer_of h L" and "hue_layer_of h L < L"
proof -
  have "0 \<le> f64 (of_nat (unat h) / 180)" by (rule f64_nonneg) (simp del: of_nat_unat)
  moreover have "0 \<le> f64 (of_int L)" by (rule f64_nonneg) (use assms in simp)
  ultimately have "0 \<le> f64 (of_nat (unat h) / 180) * f64 (of_int L)"
    by (rule mult_nonneg_nonneg)
  then have "0 \<le> f64 (f64 (of_nat (unat h) / 180) * f64 (of_int L))"
    by (rule f64_nonneg)
  then have "0 \<le> astype_int (f64 (f64 (of_nat (unat h) / 180) * f64 (of_int L)))"
    by (rule astype_int_nonneg)
  then show "0 \<le> hue_layer_of h L" using assms by (simp add: hue_layer_of_def)
  show "hue_layer_of h L < L" by (simp add: hue_layer_of_def)
qed

lemma depth_of_bounds:
  assumes "0 \<le> d" "d \<le> m" "0 < m" "1 \<le> D" "D \<le> 2 ^ 24 + 1"
  shows "0 \<le> depth_of d m D" and "depth_of d m D < D"
proof -
  define a where "a = f32 (d / m)"
  have q: "d / m \<le> of_int 1" using assms by simp
  have a0: "0 \<le> a" unfolding a_def by (rule f32_nonneg) (use assms in simp)
  have a1: "a \<le> 1" using f32_le_int[OF q] by (simp add: a_def)
  have b: "f32 (of_int (D - 1)) = of_int (D - 1)" by (rule f32_of_int) (use assms in simp_all)
  have H0: "(0::rat) \<le> of_int (D - 1)" using assms by simp
  have p0: "0 \<le> a * of_int (D - 1)" using a0 H0 by (rule mult_nonneg_nonneg)
  have p1: "a * of_int (D - 1) \<le> of_int (D - 1)" using a0 a1 H0 by (rule unit_times_le)
  have r0: "0 \<le> f32 (a * of_int (D - 1))" using p0 by (rule f32_nonneg)
  have r1: "f32 (a * of_int (D - 1)) \<le> of_int (D - 1)" by (rule f32_le_int[OF p1]) (use assms in simp_all)
  show "0 \<le> depth_of d m D" using r0 unfolding depth_of_def b a_def[symmetric] by (rule astype_int_nonneg)
  have "depth_of d m D \<le> D - 1" using r0 r1 unfolding depth_of_def b a_def[symmetric] by (rule astype_int_le)
  then show "depth_of d m D < D" by simp
qed

text \<open>
  The depth never exceeds the \<^verbatim>\<open>float32\<close> value of \<open>depth_levels - 1\<close>, and reaches it where the
  distance is largest.
\<close>

lemma f32_le_rounded: "0 < y \<Longrightarrow> x \<le> f32 y \<Longrightarrow> f32 x \<le> f32 y"
  unfolding f32_def by (rule round_to_le_rounded) simp_all

lemma f32_idem: "0 < y \<Longrightarrow> f32 (f32 y) = f32 y"
  unfolding f32_def by (rule round_to_idem) simp_all

lemma f32_zero: "f32 0 = 0"
  by (simp add: f32_def round_to_def)

lemma f32_of_int_integral:
  assumes "0 \<le> n"
  shows "\<exists>k. f32 (of_int n) = of_int k"
proof (cases "n \<le> 2 ^ 24")
  case True
  then have "f32 (of_int n) = of_int n" using assms by (intro f32_of_int) simp_all
  then show ?thesis by blast
next
  case False
  then have "2 ^ 24 \<le> n" by simp
  then have "(of_int (2 ^ 24) :: rat) \<le> of_int n" by (simp only: of_int_le_iff)
  then have big: "(2::rat) powi 24 \<le> of_int n" by simp
  then have pos: "(0::rat) < of_int n" by (rule less_le_trans[rotated]) simp
  have e: "24 \<le> expo (of_int n :: rat)"
  proof (rule ccontr)
    assume "\<not> 24 \<le> expo (of_int n :: rat)"
    then have "expo (of_int n :: rat) + 1 \<le> 24" by simp
    then have "(2::rat) powi (expo (of_int n :: rat) + 1) \<le> 2 powi 24"
      by (rule power_int_increasing) simp
    then show False using big expo_upper[OF pos] by linarith
  qed
  define q where "q = max (expo \<bar>of_int n :: rat\<bar> - int 24 + 1) (- 149)"
  have q0: "0 \<le> q" using e pos by (simp add: q_def)
  obtain m where m: "f32 (of_int n) = sgn (of_int n :: rat) * of_int m * 2 powi q"
    using round_to_significand[of "of_int n :: rat" 24 "- 149"] pos unfolding f32_def q_def by auto
  have "(2::rat) powi q = of_int (2 ^ nat q)"
    using power_int_split[of 0 q] q0 by simp
  then have "f32 (of_int n) = of_int (m * 2 ^ nat q)" using m pos by simp
  then show ?thesis by blast
qed

lemma depth_of_le_scale:
  assumes "0 \<le> d" "d \<le> m" "0 < m" "1 \<le> D"
  shows "0 \<le> depth_of d m D" and "of_int (depth_of d m D) \<le> f32 (of_int (D - 1))"
proof -
  define a where "a = f32 (d / m)"
  define F where "F = f32 (of_int (D - 1))"
  have q: "d / m \<le> of_int 1" using assms by simp
  have a0: "0 \<le> a" unfolding a_def by (rule f32_nonneg) (use assms in simp)
  have a1: "a \<le> 1" using f32_le_int[OF q] by (simp add: a_def)
  have F0: "0 \<le> F" unfolding F_def by (rule f32_nonneg) (use assms in simp)
  have p0: "0 \<le> a * F" using a0 F0 by (rule mult_nonneg_nonneg)
  have p1: "a * F \<le> F" using a0 a1 F0 by (rule unit_times_le)
  have r0: "0 \<le> f32 (a * F)" using p0 by (rule f32_nonneg)
  have r1: "f32 (a * F) \<le> F"
  proof (cases "D = 1")
    case True
    then have "F = 0" by (simp add: F_def f32_zero)
    then show ?thesis by (simp add: f32_zero)
  next
    case False
    then have "(0::rat) < of_int (D - 1)" using assms(4) by simp
    then show ?thesis using p1 unfolding F_def by (rule f32_le_rounded)
  qed
  have d: "depth_of d m D = astype_int (f32 (a * F))" by (simp add: depth_of_def a_def F_def)
  show "0 \<le> depth_of d m D" unfolding d using r0 by (rule astype_int_nonneg)
  have "of_int (depth_of d m D) \<le> f32 (a * F)" unfolding d using r0 by (simp add: astype_int_def)
  then show "of_int (depth_of d m D) \<le> f32 (of_int (D - 1))" using r1 unfolding F_def by linarith
qed

lemma depth_of_max:
  assumes "0 < m" "1 \<le> D"
  shows "depth_of m m D = astype_int (f32 (of_int (D - 1)))"
proof -
  have "m / m = 1" using assms(1) by simp
  moreover have "f32 (of_int 1) = of_int 1" by (rule f32_of_int) simp_all
  ultimately have one: "f32 (m / m) = 1" by simp
  have idem: "f32 (f32 (of_int (D - 1))) = f32 (of_int (D - 1))"
  proof (cases "D = 1")
    case True then show ?thesis by (simp add: f32_zero)
  next
    case False
    then have "(0::rat) < of_int (D - 1)" using assms(2) by simp
    then show ?thesis by (rule f32_idem)
  qed
  show ?thesis unfolding depth_of_def one mult_1 idem ..
qed

lemma f32_scale_exact: "1 \<le> D \<Longrightarrow> D \<le> 2 ^ 24 + 1 \<Longrightarrow> f32 (of_int (D - 1)) \<le> of_int (D - 1)"
  using f32_of_int[of "D - 1"] by simp

text \<open>
  The truncated double-precision product \<^verbatim>\<open>int((n / c) * H)\<close> is the exact floor of \<open>n * H / c\<close>
  or one less, for the byte values and divisors of the height and hue-layer strategies and
  every \<open>H\<close> up to \<open>2^32\<close>.
\<close>

lemma scale_near_floor:
  fixes n c :: nat and H :: int
  assumes c: "0 < c" "c \<le> 255" and n: "n \<le> 255" and H: "0 < H" "H \<le> 2 ^ 32"
  shows "\<lfloor>(of_nat n * of_int H / of_nat c :: rat)\<rfloor> - 1
           \<le> astype_int (f64 (f64 (of_nat n / of_nat c) * f64 (of_int H)))
       \<and> astype_int (f64 (f64 (of_nat n / of_nat c) * f64 (of_int H)))
           \<le> \<lfloor>(of_nat n * of_int H / of_nat c :: rat)\<rfloor>"
proof -
  define \<delta> where "\<delta> = (1 / 2 ^ 53 :: rat)"
  define q where "q = (of_nat n / of_nat c :: rat)"
  define h where "h = (of_int H :: rat)"
  define C where "C = (of_nat c :: rat)"
  define E where "E = q * h"
  define a where "a = f64 q"
  define v where "v = a * h"
  define w where "w = f64 v"
  define k where "k = \<lfloor>E\<rfloor>"
  have "H \<le> 2 ^ 53" using H(2) by simp
  then have fH: "f64 (of_int H) = h" unfolding h_def using H(1) by (intro f64_of_int) simp_all
  have W: "f64 (f64 (of_nat n / of_nat c) * f64 (of_int H)) = w"
    unfolding w_def v_def a_def q_def fH ..
  have Eq: "(of_nat n * of_int H / of_nat c :: rat) = E" by (simp add: E_def q_def h_def)
  have "k - 1 \<le> astype_int w \<and> astype_int w \<le> k"
  proof (cases "n = 0")
    case True
    then have "w = 0" "E = 0"
      by (simp_all add: w_def v_def a_def q_def E_def f64_def round_to_def)
    then show ?thesis by (simp add: k_def astype_int_def)
  next
    case False
    have d0: "0 < \<delta>" "\<delta> \<le> 1 / 256" by (simp_all add: \<delta>_def)
    have C0: "0 < C" "C \<le> 255" using c by (simp_all add: C_def)
    have N1: "(1::rat) \<le> of_nat n" "(of_nat n :: rat) \<le> 255" using False n by simp_all
    have "1 \<le> H" using H(1) by simp
    then have "(of_int 1 :: rat) \<le> of_int H" by (simp only: of_int_le_iff)
    moreover have "(of_int H :: rat) \<le> of_int (2 ^ 32)" using H(2) by (simp only: of_int_le_iff)
    ultimately have h1: "1 \<le> h" "h \<le> 2 ^ 32" by (simp_all add: h_def)
    have "(1::rat) / 255 \<le> of_nat n / C" using N1(1) C0 by (intro frac_le) simp_all
    then have q1: "1 / 255 \<le> q" by (simp add: q_def C_def)
    then have q0: "0 < q" by linarith
    have "(2::rat) powi (- 1022) \<le> 2 powi (- 8)" by (rule power_int_increasing) simp_all
    also have "\<dots> = 1 / 256" by (simp add: power_int_minus field_simps)
    finally have tiny: "(2::rat) powi (- 1022) \<le> 1 / 256" .
    have aq: "\<bar>a - q\<bar> \<le> q * \<delta>"
      unfolding a_def \<delta>_def using tiny q1 by (intro f64_relative_error) linarith
    have "q * \<delta> \<le> q * (1 / 256)" using d0(2) q0 by (intro mult_left_mono) simp_all
    then have "q * (255 / 256) \<le> a" using aq by linarith
    moreover have "(1 / 255) * (255 / 256) \<le> q * (255 / 256 :: rat)"
      using q1 by (intro mult_right_mono) simp_all
    ultimately have a1: "1 / 256 \<le> a" by simp
    have "a * 1 \<le> a * h" using h1(1) a1 by (intro mult_left_mono) simp_all
    then have "a \<le> v" by (simp only: v_def mult_1_right)
    then have v1: "1 / 256 \<le> v" using a1 by linarith
    have wv: "\<bar>w - v\<bar> \<le> v * \<delta>"
      unfolding w_def \<delta>_def using tiny v1 by (intro f64_relative_error) linarith
    have E0: "0 < E" using q0 h1(1) by (simp add: E_def)
    have "v - E = (a - q) * h" by (simp add: v_def E_def algebra_simps)
    then have "\<bar>v - E\<bar> = \<bar>a - q\<bar> * h" using h1(1) by (simp add: abs_mult)
    also have "\<dots> \<le> (q * \<delta>) * h" using aq h1(1) by (intro mult_right_mono) simp_all
    also have "\<dots> = E * \<delta>" by (simp add: E_def)
    finally have vE: "\<bar>v - E\<bar> \<le> E * \<delta>" .
    have "E * \<delta> \<le> E * 1" using d0 E0 by (intro mult_left_mono) simp_all
    then have "v \<le> 2 * E" using vE by simp
    then have "v * \<delta> \<le> (2 * E) * \<delta>" using d0(1) by (intro mult_right_mono) simp_all
    then have wE: "\<bar>w - E\<bar> \<le> 3 * (E * \<delta>)" using wv vE by linarith
    have EC: "E * C = of_nat n * h" using C0(1) by (simp add: E_def q_def C_def)
    have "of_nat n * h \<le> 255 * (2 ^ 32 :: rat)" using N1 h1 by (intro mult_mono) simp_all
    then have "E * C \<le> 255 * 2 ^ 32" by (simp only: EC)
    then have "(E * C) * (3 * \<delta>) \<le> (255 * 2 ^ 32) * (3 * \<delta>)"
      using d0(1) by (intro mult_right_mono) simp_all
    then have "3 * (E * \<delta>) * C \<le> 3 * (255 * 2 ^ 32) * \<delta>"
      by (simp only: mult_ac)
    also have "\<dots> < 1" by (simp add: \<delta>_def)
    finally have t: "3 * (E * \<delta>) * C < 1" .
    have ECi: "E * C = of_int (int n * H)" by (simp add: EC h_def)
    have Ci: "C = of_int (int c)" by (simp add: C_def)
    have kE: "of_int k \<le> E" "E < of_int (k + 1)" unfolding k_def by linarith+
    have "E * C < of_int (k + 1) * C" using kE(2) C0(1) by (rule mult_strict_right_mono)
    have KC: "of_int (k + 1) * C = of_int ((k + 1) * int c)" by (simp add: Ci)
    have "E * C < of_int (k + 1) * C" using kE(2) C0(1) by (rule mult_strict_right_mono)
    then have "(of_int (int n * H) :: rat) < of_int ((k + 1) * int c)"
      by (simp only: ECi KC)
    then have "int n * H < (k + 1) * int c" by (simp only: of_int_less_iff)
    then have "int n * H + 1 \<le> (k + 1) * int c" by simp
    then have "(of_int (int n * H + 1) :: rat) \<le> of_int ((k + 1) * int c)"
      by (simp only: of_int_le_iff)
    then have "(of_int (int n * H) :: rat) + 1 \<le> of_int ((k + 1) * int c)" by simp
    then have up: "E * C + 1 \<le> of_int (k + 1) * C" by (simp only: ECi KC)
    have "w \<le> E + 3 * (E * \<delta>)" using wE by linarith
    then have "w * C \<le> (E + 3 * (E * \<delta>)) * C" using C0(1) by (intro mult_right_mono) simp_all
    also have "\<dots> = E * C + 3 * (E * \<delta>) * C" by (simp add: algebra_simps)
    also have "\<dots> < of_int (k + 1) * C" using t up by linarith
    finally have "w < of_int (k + 1)" using C0(1) by (simp only: mult_less_cancel_right_pos)
    then have "\<lfloor>w\<rfloor> < k + 1" by (simp only: floor_less_iff)
    then have U: "\<lfloor>w\<rfloor> \<le> k" by simp
    have "of_int k * C \<le> E * C" using kE(1) C0(1) by (intro mult_right_mono) simp_all
    moreover have "1 \<le> C" using c(1) by (simp add: C_def)
    moreover have "of_int (k - 1) * C = of_int k * C - C" by (simp add: algebra_simps)
    ultimately have lo: "of_int (k - 1) * C \<le> E * C - 1" by linarith
    have "E - 3 * (E * \<delta>) \<le> w" using wE by linarith
    then have "(E - 3 * (E * \<delta>)) * C \<le> w * C" using C0(1) by (intro mult_right_mono) simp_all
    moreover have "(E - 3 * (E * \<delta>)) * C = E * C - 3 * (E * \<delta>) * C" by (simp add: algebra_simps)
    ultimately have "of_int (k - 1) * C < w * C" using t lo by linarith
    then have "of_int (k - 1) < w" using C0(1) by (simp only: mult_less_cancel_right_pos)
    then have "of_int (k - 1) \<le> w" by (rule less_imp_le)
    then have L: "k - 1 \<le> \<lfloor>w\<rfloor>" by (simp only: le_floor_iff)
    have "0 \<le> v" using v1 by linarith
    then have "0 \<le> w" unfolding w_def by (rule f64_nonneg)
    then show ?thesis using U L by (simp add: astype_int_def)
  qed
  then show ?thesis unfolding W Eq k_def .
qed

lemma heights_of_near_floor:
  assumes "0 < H" "H \<le> 2 ^ 32"
  shows "\<lfloor>(of_nat (unat g) * of_int H / 255 :: rat)\<rfloor> - 1 \<le> heights_of g H
       \<and> heights_of g H \<le> \<lfloor>(of_nat (unat g) * of_int H / 255 :: rat)\<rfloor>"
proof -
  have "unat g < 2 ^ 8" using unsigned_less[of g, where 'a=nat] by simp
  then have n: "unat g \<le> 255" by simp
  have c: "(0::nat) < 255" "(255::nat) \<le> 255" by simp_all
  have k: "(of_nat 255 :: rat) = 255" by simp
  show ?thesis
    using scale_near_floor[OF c n assms] unfolding heights_of_def k .
qed

lemma hue_layer_of_near_floor:
  assumes "0 < L" "L \<le> 2 ^ 32"
  shows "min (\<lfloor>(of_nat (unat h) * of_int L / 180 :: rat)\<rfloor> - 1) (L - 1) \<le> hue_layer_of h L
       \<and> hue_layer_of h L \<le> min \<lfloor>(of_nat (unat h) * of_int L / 180 :: rat)\<rfloor> (L - 1)"
proof -
  have "unat h < 2 ^ 8" using unsigned_less[of h, where 'a=nat] by simp
  then have n: "unat h \<le> 255" by simp
  have c: "(0::nat) < 180" "(180::nat) \<le> 255" by simp_all
  have k: "(of_nat 180 :: rat) = 180" by simp
  have "\<lfloor>(of_nat (unat h) * of_int L / 180 :: rat)\<rfloor> - 1
          \<le> astype_int (f64 (f64 (of_nat (unat h) / 180) * f64 (of_int L)))
       \<and> astype_int (f64 (f64 (of_nat (unat h) / 180) * f64 (of_int L)))
          \<le> \<lfloor>(of_nat (unat h) * of_int L / 180 :: rat)\<rfloor>"
    using scale_near_floor[OF c n assms] unfolding k .
  then show ?thesis unfolding hue_layer_of_def min_def by (simp del: of_nat_unat split: if_splits)
qed



lemma norm_index_int_D: "norm_index n (int i) = Inr k \<Longrightarrow> k = i \<and> i < n"
  by (auto simp: norm_index_def split: if_splits)

lemma norm_index_nonneg_D: "norm_index n z = Inr k \<Longrightarrow> 0 \<le> z \<Longrightarrow> k = nat z \<and> k < n"
  by (auto simp: norm_index_def split: if_splits)

lemma norm_index_D: "norm_index n z = Inr k \<Longrightarrow> k < n"
  by (auto simp: norm_index_def split: if_splits)

lemma mark_painted_D:
  assumes "mark (int x, int y, z) v (painted sh W col) = Inr s'"
  obtains k where "in_shape sh (x, y, k)" and "0 \<le> z \<Longrightarrow> k = nat z"
    and "v = col (x, y, k) \<Longrightarrow> s' = painted sh (insert (x, y, k) W) col"
proof -
  obtain a b d where sh: "sh = (a, b, d)" by (cases sh)
  from assms obtain i j k where i: "norm_index a (int x) = Inr i" and j: "norm_index b (int y) = Inr j"
    and k: "norm_index d z = Inr k"
    and s': "s' = (\<lparr>shape = sh, cell = (\<lambda>c. c \<in> W)\<rparr>\<lparr>cell := (\<lambda>c. c \<in> W)((i, j, k) := True)\<rparr>,
                  \<lparr>shape = sh, cell = (\<lambda>c. if c \<in> W then col c else (0, 0, 0))\<rparr>
                    \<lparr>cell := (\<lambda>c. if c \<in> W then col c else (0, 0, 0))((i, j, k) := v)\<rparr>)"
    by (auto simp: mark_def painted_def setitem_def sh and_then_eq_Inr)
  have ij: "i = x" "x < a" "j = y" "y < b" "k < d"
    using norm_index_int_D[OF i] norm_index_int_D[OF j] norm_index_D[OF k] by simp_all
  show ?thesis
  proof (rule that[of k])
    show "in_shape sh (x, y, k)" using ij by (simp add: in_shape_def sh)
    show "0 \<le> z \<Longrightarrow> k = nat z" using norm_index_nonneg_D[OF k] by simp
    show "v = col (x, y, k) \<Longrightarrow> s' = painted sh (insert (x, y, k) W) col"
      unfolding s' painted_def using ij by (auto simp: fun_eq_iff)
  qed
qed

lemma new_grids_is_painted: "new_grids r d = Inr s \<Longrightarrow> is_painted (nat r, nat r, nat d) col s"
  unfolding is_painted_def
  by (rule exI[of _ "{}"]) (auto simp: new_grids_def np_zeros_def painted_def split: if_splits)

lemma mark_is_painted:
  assumes "mark (x, y, z) v s = Inr s'" "is_painted sh col s" "0 \<le> x" "0 \<le> y"
    and "\<And>k. (0 \<le> z \<longrightarrow> k = nat z) \<Longrightarrow> v = col (nat x, nat y, k)"
  shows "is_painted sh col s'"
proof -
  from assms(2) obtain W where W: "W \<subseteq> Collect (in_shape sh)" and s: "s = painted sh W col"
    by (auto simp: is_painted_def)
  have m: "mark (int (nat x), int (nat y), z) v (painted sh W col) = Inr s'"
    using assms(1,3,4) s by simp
  from mark_painted_D[OF m] obtain k where k: "in_shape sh (nat x, nat y, k)" "0 \<le> z \<Longrightarrow> k = nat z"
    "v = col (nat x, nat y, k) \<Longrightarrow> s' = painted sh (insert (nat x, nat y, k) W) col" by blast
  have "v = col (nat x, nat y, k)" using assms(5)[of k] k(2) by blast
  then have "s' = painted sh (insert (nat x, nat y, k) W) col" by (rule k(3))
  moreover have "insert (nat x, nat y, k) W \<subseteq> Collect (in_shape sh)" using W k(1) by simp
  ultimately show ?thesis unfolding is_painted_def by blast
qed

lemma for_xy_preserves:
  assumes "for_each (py_range r) (\<lambda>x. for_each (py_range r) (body x)) s = Inr t" and "P s"
    and "\<And>x y s s'. 0 \<le> x \<Longrightarrow> x < r \<Longrightarrow> 0 \<le> y \<Longrightarrow> y < r \<Longrightarrow> P s \<Longrightarrow> body x y s = Inr s' \<Longrightarrow> P s'"
  shows "P t"
proof (rule for_each_preserves[where P=P, OF assms(1) assms(2)])
  fix x u u' assume x: "x \<in> set (py_range r)" and u: "P u" and b: "for_each (py_range r) (body x) u = Inr u'"
  show "P u'"
  proof (rule for_each_preserves[where P=P, OF b u])
    fix y w w' assume "y \<in> set (py_range r)" "P w" "body x y w = Inr w'"
    then show "P w'" using assms(3)[of x y w w'] x by (simp add: set_py_range)
  qed
qed


section \<open>The height strategy\<close>

lemma height_y_body_painted:
  assumes "sh = (a, b, d)" "x < a" "y < b" "heights y x \<le> int d"
    and "\<And>z. col (x, y, z) = resized y x"
  shows "height_y_body resized heights (int x) (int y) (painted sh W col)
           = Inr (painted sh (W \<union> {(x, y, z) | z. int z < heights y x}) col)"
proof (cases "0 < heights y x")
  case False
  then have "{(x, y, z) | z. int z < heights y x} = {}" by auto
  then show ?thesis using False by (simp add: height_y_body_def)
next
  case True
  have "for_each (py_range (heights y x)) (height_z_body (resized y x) (int x) (int y)) (painted sh W col)
          = Inr (painted sh (W \<union> (\<Union>z\<in>{..<nat (heights y x)}. {(x, y, z)})) col)"
  proof (rule for_range_painted)
    fix z W' assume "z < nat (heights y x)"
    then have "z < d" using assms(4) by linarith
    then have "in_shape sh (x, y, z)" using assms(1-3) by (simp add: in_shape_def)
    then show "height_z_body (resized y x) (int x) (int y) (int z) (painted sh W' col)
                 = Inr (painted sh (W' \<union> {(x, y, z)}) col)"
      unfolding height_z_body_def by (simp add: mark_painted assms(5))
  qed
  moreover have "(\<Union>z\<in>{..<nat (heights y x)}. {(x, y, z)}) = {(x, y, z) | z. int z < heights y x}"
    by auto
  ultimately show ?thesis using True by (simp add: height_y_body_def)
qed

lemma height_y_body_is_painted:
  assumes "height_y_body resized heights x y s = Inr s'" "is_painted sh col s" "0 \<le> x" "0 \<le> y"
    and "\<And>z. col (nat x, nat y, z) = resized (nat y) (nat x)"
  shows "is_painted sh col s'"
proof (cases "0 < heights (nat y) (nat x)")
  case False
  then show ?thesis using assms(1,2) by (simp add: height_y_body_def)
next
  case True
  then have l: "for_each (py_range (heights (nat y) (nat x)))
                 (height_z_body (resized (nat y) (nat x)) x y) s = Inr s'"
    using assms(1) by (simp add: height_y_body_def)
  show ?thesis
  proof (rule for_each_preserves[where P="is_painted sh col", OF l assms(2)])
    fix z u u' assume "is_painted sh col u" "height_z_body (resized (nat y) (nat x)) x y z u = Inr u'"
    then show "is_painted sh col u'"
      unfolding height_z_body_def using assms(3,4,5) by (auto intro: mark_is_painted)
  qed
qed

lemma height_based_painted:
  assumes "0 < r" "0 \<le> h" "h \<le> 2 ^ 53"
  shows "height_based_voxels cv img r h
           = Inr (painted (nat r, nat r, nat h)
                   {(x, y, z). x < nat r \<and> y < nat r \<and> int z < height_at cv img r h x y}
                   (\<lambda>(x, y, z). interpolate cv img (nat r) y x))"
proof -
  define resized where "resized = interpolate cv img (nat r)"
  define heights where "heights = (\<lambda>y x. heights_of (rgb2gray cv (nat r) resized y x) h)"
  define col where "col = (\<lambda>(x :: nat, y :: nat, z :: nat). resized y x)"
  define sh where "sh = (nat r, nat r, nat h)"
  have loop: "for_each (py_range r) (\<lambda>x. for_each (py_range r) (height_y_body resized heights x))
                (painted sh {} col)
           = Inr (painted sh ({} \<union> (\<Union>x\<in>{..<nat r}. \<Union>y\<in>{..<nat r}. {(x, y, z) | z. int z < heights y x})) col)"
  proof (rule for_xy_painted)
    fix x y W assume "x < nat r" "y < nat r"
    moreover have "heights y x \<le> int (nat h)"
      using heights_of_bounds(2)[OF assms(2,3)] assms(2) by (simp add: heights_def)
    ultimately show "height_y_body resized heights (int x) (int y) (painted sh W col)
            = Inr (painted sh (W \<union> {(x, y, z) | z. int z < heights y x}) col)"
      by (intro height_y_body_painted[where a="nat r" and b="nat r" and d="nat h"])
         (simp_all add: sh_def col_def)
  qed
  have set: "{} \<union> (\<Union>x\<in>{..<nat r}. \<Union>y\<in>{..<nat r}. {(x, y, z) | z. int z < heights y x})
           = {(x, y, z). x < nat r \<and> y < nat r \<and> int z < height_at cv img r h x y}"
    by (auto simp: heights_def height_at_def resized_def)
  have ng: "new_grids r h = Inr (painted sh {} col)"
    unfolding sh_def by (rule new_grids_painted) (use assms in simp_all)
  have loop': "for_each (py_range r) (\<lambda>x. for_each (py_range r) (height_y_body resized heights x))
                (painted sh {} col)
           = Inr (painted sh {(x, y, z). x < nat r \<and> y < nat r \<and> int z < height_at cv img r h x y} col)"
    using loop unfolding set .
  show ?thesis
    using assms(1) loop'
    by (simp add: height_based_voxels_def cv2_resize_def Let_def ng
        flip: resized_def heights_def col_def sh_def)
qed

lemma height_based_is_painted:
  assumes "height_based_voxels cv img r h = Inr s"
  shows "is_painted (nat r, nat r, nat h) (\<lambda>(x, y, z). interpolate cv img (nat r) y x) s"
proof -
  define resized where "resized = interpolate cv img (nat r)"
  define heights where "heights = (\<lambda>y x. heights_of (rgb2gray cv (nat r) resized y x) h)"
  define col where "col = (\<lambda>(x :: nat, y :: nat, z :: nat). resized y x)"
  from assms obtain s0 where ng: "new_grids r h = Inr s0"
    and loop: "for_each (py_range r) (\<lambda>x. for_each (py_range r) (height_y_body resized heights x)) s0 = Inr s"
    by (auto simp: height_based_voxels_def cv2_resize_def Let_def and_then_eq_Inr resized_def heights_def
             split: if_splits)
  have "is_painted (nat r, nat r, nat h) col s"
  proof (rule for_xy_preserves[where P="is_painted (nat r, nat r, nat h) col", OF loop new_grids_is_painted[OF ng]])
    fix x y u u' assume x: "0 \<le> x" and y: "0 \<le> y" and p: "is_painted (nat r, nat r, nat h) col u"
      and b: "height_y_body resized heights x y u = Inr u'"
    show "is_painted (nat r, nat r, nat h) col u'"
      by (rule height_y_body_is_painted[OF b p x y]) (simp add: col_def)
  qed
  then show ?thesis by (simp add: col_def resized_def)
qed

section \<open>The hue-layer strategy\<close>


lemma color_y_body_painted:
  assumes "sh = (a, b, d)" "x < a" "y < b" "1 \<le> L" "int d = L"
    and "\<And>z. col (x, y, z) = resized y x"
  shows "color_y_body resized hsv L (int x) (int y) (painted sh W col)
           = Inr (painted sh (W \<union> {(x, y, z) | z. 30 < fst (snd (hsv y x)) \<and> 30 < snd (snd (hsv y x))
                                          \<and> int z = hue_layer_of (fst (hsv y x)) L}) col)"
proof (cases "30 < fst (snd (hsv y x)) \<and> 30 < snd (snd (hsv y x))")
  case False
  then have e: "{(x, y, z) | z. 30 < fst (snd (hsv y x)) \<and> 30 < snd (snd (hsv y x))
                \<and> int z = hue_layer_of (fst (hsv y x)) L} = {}" by blast
  have "color_y_body resized hsv L (int x) (int y) (painted sh W col) = Inr (painted sh W col)"
    using False by (auto simp: color_y_body_def Let_def)
  then show ?thesis unfolding e by simp
next
  case True
  define k where "k = nat (hue_layer_of (fst (hsv y x)) L)"
  have b: "0 \<le> hue_layer_of (fst (hsv y x)) L" "hue_layer_of (fst (hsv y x)) L < L"
    using hue_layer_of_bounds[OF assms(4)] by blast+
  have ik: "int k = hue_layer_of (fst (hsv y x)) L" using b by (simp add: k_def)
  have "k < d" using b assms(5) ik by linarith
  then have ins: "in_shape sh (x, y, k)" using assms(1-3) by (simp add: in_shape_def)
  have set: "{(x, y, z) | z. 30 < fst (snd (hsv y x)) \<and> 30 < snd (snd (hsv y x))
                \<and> int z = hue_layer_of (fst (hsv y x)) L} = {(x, y, k)}"
    using True ik by auto
  have "mark (int x, int y, int k) (resized y x) (painted sh W col)
          = Inr (painted sh (insert (x, y, k) W) col)"
    by (rule mark_painted[OF ins]) (simp add: assms(6))
  then show ?thesis using True unfolding set by (simp add: color_y_body_def Let_def ik)
qed

lemma color_y_body_is_painted:
  assumes "color_y_body resized hsv L x y s = Inr s'" "is_painted sh col s" "0 \<le> x" "0 \<le> y"
    and "\<And>z. col (nat x, nat y, z) = resized (nat y) (nat x)"
  shows "is_painted sh col s'"
proof (cases "30 < fst (snd (hsv (nat y) (nat x))) \<and> 30 < snd (snd (hsv (nat y) (nat x)))")
  case False
  then show ?thesis using assms(1,2) by (auto simp: color_y_body_def Let_def)
next
  case True
  then have m: "mark (x, y, hue_layer_of (fst (hsv (nat y) (nat x))) L) (resized (nat y) (nat x)) s = Inr s'"
    using assms(1) by (simp add: color_y_body_def Let_def)
  show ?thesis by (rule mark_is_painted[OF m assms(2,3,4)]) (simp add: assms(5))
qed

lemma color_layered_painted:
  assumes "0 < r" "1 \<le> L"
  shows "color_layered_voxels cv img r L
           = Inr (painted (nat r, nat r, nat L)
                   {(x, y, z). x < nat r \<and> y < nat r
                      \<and> 30 < fst (snd (hsv_at cv img r x y)) \<and> 30 < snd (snd (hsv_at cv img r x y))
                      \<and> int z = hue_layer_of (fst (hsv_at cv img r x y)) L}
                   (\<lambda>(x, y, z). interpolate cv img (nat r) y x))"
proof -
  define resized where "resized = interpolate cv img (nat r)"
  define hsv where "hsv = rgb2hsv cv (nat r) resized"
  define col where "col = (\<lambda>(x :: nat, y :: nat, z :: nat). resized y x)"
  define sh where "sh = (nat r, nat r, nat L)"
  define C where "C = (\<lambda>x y. {(x, y, z) | z. 30 < fst (snd (hsv y x)) \<and> 30 < snd (snd (hsv y x))
                                  \<and> int z = hue_layer_of (fst (hsv y x)) L})"
  have loop: "for_each (py_range r) (\<lambda>x. for_each (py_range r) (color_y_body resized hsv L x))
                (painted sh {} col)
           = Inr (painted sh ({} \<union> (\<Union>x\<in>{..<nat r}. \<Union>y\<in>{..<nat r}. C x y)) col)"
  proof (rule for_xy_painted)
    fix x y W assume "x < nat r" "y < nat r"
    then show "color_y_body resized hsv L (int x) (int y) (painted sh W col)
            = Inr (painted sh (W \<union> C x y) col)"
      unfolding C_def
      by (intro color_y_body_painted[where a="nat r" and b="nat r" and d="nat L"])
         (use assms in \<open>simp_all add: sh_def col_def\<close>)
  qed
  have set: "{} \<union> (\<Union>x\<in>{..<nat r}. \<Union>y\<in>{..<nat r}. C x y)
           = {(x, y, z). x < nat r \<and> y < nat r
                      \<and> 30 < fst (snd (hsv_at cv img r x y)) \<and> 30 < snd (snd (hsv_at cv img r x y))
                      \<and> int z = hue_layer_of (fst (hsv_at cv img r x y)) L}"
    by (auto simp: C_def hsv_def hsv_at_def resized_def)
  have ng: "new_grids r L = Inr (painted sh {} col)"
    unfolding sh_def by (rule new_grids_painted) (use assms in simp_all)
  have loop': "for_each (py_range r) (\<lambda>x. for_each (py_range r) (color_y_body resized hsv L x))
                (painted sh {} col)
           = Inr (painted sh {(x, y, z). x < nat r \<and> y < nat r
                      \<and> 30 < fst (snd (hsv_at cv img r x y)) \<and> 30 < snd (snd (hsv_at cv img r x y))
                      \<and> int z = hue_layer_of (fst (hsv_at cv img r x y)) L} col)"
    using loop unfolding set .
  show ?thesis
    using assms(1) loop'
    by (simp add: color_layered_voxels_def cv2_resize_def Let_def ng
        flip: resized_def hsv_def col_def sh_def)
qed

lemma color_layered_is_painted:
  assumes "color_layered_voxels cv img r L = Inr s"
  shows "is_painted (nat r, nat r, nat L) (\<lambda>(x, y, z). interpolate cv img (nat r) y x) s"
proof -
  define resized where "resized = interpolate cv img (nat r)"
  define hsv where "hsv = rgb2hsv cv (nat r) resized"
  define col where "col = (\<lambda>(x :: nat, y :: nat, z :: nat). resized y x)"
  from assms obtain s0 where ng: "new_grids r L = Inr s0"
    and loop: "for_each (py_range r) (\<lambda>x. for_each (py_range r) (color_y_body resized hsv L x)) s0 = Inr s"
    by (auto simp: color_layered_voxels_def cv2_resize_def Let_def and_then_eq_Inr resized_def hsv_def
             split: if_splits)
  have "is_painted (nat r, nat r, nat L) col s"
  proof (rule for_xy_preserves[where P="is_painted (nat r, nat r, nat L) col", OF loop new_grids_is_painted[OF ng]])
    fix x y u u' assume x: "0 \<le> x" and y: "0 \<le> y" and p: "is_painted (nat r, nat r, nat L) col u"
      and b: "color_y_body resized hsv L x y u = Inr u'"
    show "is_painted (nat r, nat r, nat L) col u'"
      by (rule color_y_body_is_painted[OF b p x y]) (simp add: col_def)
  qed
  then show ?thesis by (simp add: col_def resized_def)
qed

section \<open>The structure-depth strategy\<close>


lemma fold_max_ge:
  fixes a :: rat
  shows "a \<le> fold max xs a" and "x \<in> set xs \<Longrightarrow> x \<le> fold max xs a"
proof -
  have m: "fold max xs a = Max (set (a # xs))" by (rule Max.set_eq_fold[symmetric])
  show "a \<le> fold max xs a" unfolding m by (rule Max_ge) simp_all
  show "x \<in> set xs \<Longrightarrow> x \<le> fold max xs a" unfolding m by (rule Max_ge) simp_all
qed

lemma np_max_dist:
  assumes "0 < r"
  shows "np_max (nat r) (\<lambda>y x. dist_at cv img r x y) = Inr (max_dist_at cv img r)"
  using assms by (simp add: np_max_def max_dist_at_def)

lemma dist_at_le_max:
  assumes "x < nat r" "y < nat r"
  shows "dist_at cv img r x y \<le> max_dist_at cv img r"
  unfolding max_dist_at_def
proof (rule fold_max_ge(2))
  show "dist_at cv img r x y
          \<in> set (concat (map (\<lambda>y. map (\<lambda>x. dist_at cv img r x y) [0..<nat r]) [0..<nat r]))"
  proof -
    have "y \<in> set [0..<nat r]" using assms(2) by simp
    moreover have "dist_at cv img r x y \<in> set (map (\<lambda>x. dist_at cv img r x y) [0..<nat r])"
      using assms(1) by simp
    ultimately have "dist_at cv img r x y
          \<in> (\<Union>y\<in>set [0..<nat r]. set (map (\<lambda>x. dist_at cv img r x y) [0..<nat r]))"
      by (rule UN_I)
    then show ?thesis by (simp only: set_concat set_map image_image)
  qed
qed

lemma depth_at_bounds:
  assumes "x < nat r" "y < nat r" "0 \<le> dist_at cv img r x y" "1 \<le> D" "D \<le> 2 ^ 24 + 1"
  shows "0 \<le> depth_at cv img r D x y" and "depth_at cv img r D x y < D"
proof -
  have le: "dist_at cv img r x y \<le> max_dist_at cv img r" using assms(1,2) by (rule dist_at_le_max)
  show "0 \<le> depth_at cv img r D x y"
    using depth_of_bounds(1)[OF assms(3) le _ assms(4,5)] by (simp add: depth_at_def)
  show "depth_at cv img r D x y < D"
    using depth_of_bounds(2)[OF assms(3) le _ assms(4,5)] assms(4) by (simp add: depth_at_def)
qed

lemma structure_y_body_painted:
  assumes "sh = (a, b, d)" "x < a" "y < b" "0 \<le> depth_map y x" "depth_map y x < int d"
    and "\<And>z. col (x, y, z) = darken (resized y x) (color_intensity (int z) D)"
  shows "structure_y_body resized depth_map D (int x) (int y) (painted sh W col)
           = Inr (painted sh (W \<union> {(x, y, z) | z. int z \<le> depth_map y x}) col)"
proof -
  have "for_each (py_range (depth_map y x + 1)) (structure_z_body (resized y x) D (int x) (int y))
          (painted sh W col)
          = Inr (painted sh (W \<union> (\<Union>z\<in>{..<nat (depth_map y x + 1)}. {(x, y, z)})) col)"
  proof (rule for_range_painted)
    fix z W' assume "z < nat (depth_map y x + 1)"
    then have "z < d" using assms(5) by linarith
    then have "in_shape sh (x, y, z)" using assms(1-3) by (simp add: in_shape_def)
    then show "structure_z_body (resized y x) D (int x) (int y) (int z) (painted sh W' col)
                 = Inr (painted sh (W' \<union> {(x, y, z)}) col)"
      unfolding structure_z_body_def by (simp add: mark_painted assms(6))
  qed
  moreover have "(\<Union>z\<in>{..<nat (depth_map y x + 1)}. {(x, y, z)}) = {(x, y, z) | z. int z \<le> depth_map y x}"
    using assms(4) by auto
  ultimately show ?thesis by (simp add: structure_y_body_def Let_def)
qed

lemma py_range_split:
  assumes "k < nat n"
  shows "py_range n = py_range (int k) @ int k # map int [Suc k..<nat n]"
proof -
  have "[0..<nat n] = [0..<k] @ k # [Suc k..<nat n]"
    using assms by (metis less_imp_le_nat upt_add_eq_append upt_conv_Cons zero_le le_add_diff_inverse plus_nat.add_0)
  then show ?thesis by (simp add: py_range_def)
qed

lemma structure_y_body_index_error:
  assumes "sh = (a, b, d)" "x < a" "y < b" "int d \<le> depth_map y x"
    and "\<And>z. col (x, y, z) = darken (resized y x) (color_intensity (int z) D)"
  shows "structure_y_body resized depth_map D (int x) (int y) (painted sh W col) = Inl IndexError"
proof -
  have k: "d < nat (depth_map y x + 1)" using assms(4) by linarith
  have first: "for_each (py_range (int d)) (structure_z_body (resized y x) D (int x) (int y))
          (painted sh W col)
          = Inr (painted sh (W \<union> (\<Union>z\<in>{..<nat (int d)}. {(x, y, z)})) col)"
  proof (rule for_range_painted)
    fix z W' assume "z < nat (int d)"
    then have "in_shape sh (x, y, z)" using assms(1-3) by (simp add: in_shape_def)
    then show "structure_z_body (resized y x) D (int x) (int y) (int z) (painted sh W' col)
                 = Inr (painted sh (W' \<union> {(x, y, z)}) col)"
      unfolding structure_z_body_def by (simp add: mark_painted assms(5))
  qed
  have fail: "structure_z_body (resized y x) D (int x) (int y) (int d) (painted sh W' col) = Inl IndexError"
    for W'
    unfolding structure_z_body_def by (rule mark_index_error[OF assms(1-3)]) simp
  have "structure_y_body resized depth_map D (int x) (int y) (painted sh W col)
          = for_each (py_range (depth_map y x + 1)) (structure_z_body (resized y x) D (int x) (int y))
              (painted sh W col)"
    by (simp add: structure_y_body_def Let_def)
  also have "\<dots> = Inl IndexError"
    unfolding py_range_split[OF k] for_each_append first by (simp add: fail)
  finally show ?thesis .
qed

lemma structure_y_body_is_painted:
  assumes "structure_y_body resized depth_map D x y s = Inr s'" "is_painted sh col s" "0 \<le> x" "0 \<le> y"
    and "\<And>z. col (nat x, nat y, z) = darken (resized (nat y) (nat x)) (color_intensity (int z) D)"
  shows "is_painted sh col s'"
proof -
  have l: "for_each (py_range (depth_map (nat y) (nat x) + 1))
             (structure_z_body (resized (nat y) (nat x)) D x y) s = Inr s'"
    using assms(1) by (simp add: structure_y_body_def Let_def)
  show ?thesis
  proof (rule for_each_preserves[where P="is_painted sh col", OF l assms(2)])
    fix z u u' assume z: "z \<in> set (py_range (depth_map (nat y) (nat x) + 1))"
      and p: "is_painted sh col u"
      and m: "structure_z_body (resized (nat y) (nat x)) D x y z u = Inr u'"
    have z0: "0 \<le> z" using z by (simp add: set_py_range)
    have m': "mark (x, y, z) (darken (resized (nat y) (nat x)) (color_intensity z D)) u = Inr u'"
      using m by (simp add: structure_z_body_def)
    show "is_painted sh col u'"
    proof (rule mark_is_painted[OF m' p assms(3,4)])
      fix k assume "0 \<le> z \<longrightarrow> k = nat z"
      then have "int k = z" using z0 by simp
      then show "darken (resized (nat y) (nat x)) (color_intensity z D) = col (nat x, nat y, k)"
        by (simp add: assms(5))
    qed
  qed
qed


lemma structure_based_unfold:
  assumes "0 < r"
  shows "structure_based_voxels cv img r D
           = and_then (new_grids r D)
               (for_each (py_range r)
                  (\<lambda>x. for_each (py_range r)
                         (structure_y_body (interpolate cv img (nat r))
                            (\<lambda>y x. depth_at cv img r D x y) D x)))"
proof -
  define dt where "dt = distance_transform cv (nat r)
               (\<lambda>y x. 255 - canny cv (nat r) (rgb2gray cv (nat r) (interpolate cv img (nat r))) 50 150 y x)"
  have dt: "dt = (\<lambda>y x. dist_at cv img r x y)"
    by (simp add: dt_def dist_at_def)
  have m: "np_max (nat r) dt = Inr (max_dist_at cv img r)"
    unfolding dt by (rule np_max_dist[OF assms])
  have d: "(if 0 < max_dist_at cv img r
            then (\<lambda>y x. depth_of (dt y x) (max_dist_at cv img r) D)
            else (\<lambda>y x. 0)) = (\<lambda>y x. depth_at cv img r D x y)"
    by (simp add: depth_at_def fun_eq_iff dt)
  have "structure_based_voxels cv img r D
          = and_then (np_max (nat r) dt) (\<lambda>max_dist.
              and_then (new_grids r D)
                (for_each (py_range r)
                   (\<lambda>x. for_each (py_range r)
                      (structure_y_body (interpolate cv img (nat r))
                         (if 0 < max_dist then (\<lambda>y x. depth_of (dt y x) max_dist D) else (\<lambda>y x. 0))
                         D x))))"
    using assms unfolding structure_based_voxels_def cv2_resize_def Let_def dt_def by simp
  also have "\<dots> = and_then (new_grids r D)
                (for_each (py_range r)
                   (\<lambda>x. for_each (py_range r)
                      (structure_y_body (interpolate cv img (nat r))
                         (if 0 < max_dist_at cv img r
                          then (\<lambda>y x. depth_of (dt y x) (max_dist_at cv img r) D) else (\<lambda>y x. 0))
                         D x)))"
    unfolding m by (rule and_then_Inr)
  finally show ?thesis unfolding d .
qed

lemma structure_based_painted:
  assumes "0 < r" "1 \<le> D" "D \<le> 2 ^ 24 + 1"
    and "\<And>x y. x < nat r \<Longrightarrow> y < nat r \<Longrightarrow> 0 \<le> dist_at cv img r x y"
  shows "structure_based_voxels cv img r D
           = Inr (painted (nat r, nat r, nat D)
                   {(x, y, z). x < nat r \<and> y < nat r \<and> int z \<le> depth_at cv img r D x y}
                   (\<lambda>(x, y, z). darken (interpolate cv img (nat r) y x) (color_intensity (int z) D)))"
proof -
  define resized where "resized = interpolate cv img (nat r)"
  define depth_map where "depth_map = (\<lambda>y x. depth_at cv img r D x y)"
  define col where "col = (\<lambda>(x :: nat, y :: nat, z :: nat). darken (resized y x) (color_intensity (int z) D))"
  define sh where "sh = (nat r, nat r, nat D)"
  have loop: "for_each (py_range r) (\<lambda>x. for_each (py_range r) (structure_y_body resized depth_map D x))
                (painted sh {} col)
           = Inr (painted sh ({} \<union> (\<Union>x\<in>{..<nat r}. \<Union>y\<in>{..<nat r}. {(x, y, z) | z. int z \<le> depth_map y x})) col)"
  proof (rule for_xy_painted)
    fix x y W assume xy: "x < nat r" "y < nat r"
    have d0: "0 \<le> depth_map y x" and d1: "depth_map y x < int (nat D)"
      using depth_at_bounds[OF xy assms(4)[OF xy] assms(2,3)] assms(2) by (simp_all add: depth_map_def)
    show "structure_y_body resized depth_map D (int x) (int y) (painted sh W col)
            = Inr (painted sh (W \<union> {(x, y, z) | z. int z \<le> depth_map y x}) col)"
      by (rule structure_y_body_painted[where a="nat r" and b="nat r" and d="nat D"
              and depth_map=depth_map and resized=resized])
         (use xy d0 d1 in \<open>simp_all add: sh_def col_def\<close>)
  qed
  have set: "{} \<union> (\<Union>x\<in>{..<nat r}. \<Union>y\<in>{..<nat r}. {(x, y, z) | z. int z \<le> depth_map y x})
           = {(x, y, z). x < nat r \<and> y < nat r \<and> int z \<le> depth_at cv img r D x y}"
    by (auto simp: depth_map_def)
  have ng: "new_grids r D = Inr (painted sh {} col)"
    unfolding sh_def by (rule new_grids_painted) (use assms in simp_all)
  have loop': "for_each (py_range r) (\<lambda>x. for_each (py_range r) (structure_y_body resized depth_map D x))
                (painted sh {} col)
           = Inr (painted sh {(x, y, z). x < nat r \<and> y < nat r \<and> int z \<le> depth_at cv img r D x y} col)"
    using loop unfolding set .
  show ?thesis
    unfolding structure_based_unfold[OF assms(1)]
    using loop' by (simp add: ng flip: resized_def depth_map_def col_def sh_def)
qed

lemma structure_based_is_painted:
  assumes "structure_based_voxels cv img r D = Inr s"
  shows "is_painted (nat r, nat r, nat D)
           (\<lambda>(x, y, z). darken (interpolate cv img (nat r) y x) (color_intensity (int z) D)) s"
proof -
  define resized where "resized = interpolate cv img (nat r)"
  define depth_map where "depth_map = (\<lambda>y x. depth_at cv img r D x y)"
  define col where "col = (\<lambda>(x :: nat, y :: nat, z :: nat). darken (resized y x) (color_intensity (int z) D))"
  have r: "0 < r" using assms
    by (cases "0 < r") (simp_all add: structure_based_voxels_def cv2_resize_def)
  from assms obtain s0 where ng: "new_grids r D = Inr s0"
    and loop: "for_each (py_range r) (\<lambda>x. for_each (py_range r) (structure_y_body resized depth_map D x)) s0 = Inr s"
    unfolding structure_based_unfold[OF r] by (auto simp: and_then_eq_Inr resized_def depth_map_def)
  have "is_painted (nat r, nat r, nat D) col s"
  proof (rule for_xy_preserves[where P="is_painted (nat r, nat r, nat D) col", OF loop new_grids_is_painted[OF ng]])
    fix x y u u' assume x: "0 \<le> x" and y: "0 \<le> y" and p: "is_painted (nat r, nat r, nat D) col u"
      and b: "structure_y_body resized depth_map D x y u = Inr u'"
    show "is_painted (nat r, nat r, nat D) col u'"
      by (rule structure_y_body_is_painted[OF b p x y]) (simp add: col_def)
  qed
  then show ?thesis by (simp add: col_def resized_def)
qed

lemma structure_based_index_error:
  assumes "0 \<le> D" "D \<le> depth_at cv img 1 D 0 0"
  shows "structure_based_voxels cv img 1 D = Inl IndexError"
proof -
  define resized where "resized = interpolate cv img (nat 1)"
  define depth_map where "depth_map = (\<lambda>y x. depth_at cv img 1 D x y)"
  define col where "col = (\<lambda>(x :: nat, y :: nat, z :: nat). darken (resized y x) (color_intensity (int z) D))"
  define sh where "sh = (nat 1, nat 1, nat D)"
  have ng: "new_grids 1 D = Inr (painted sh {} col)"
    unfolding sh_def by (rule new_grids_painted) (use assms in simp_all)
  have "structure_y_body resized depth_map D (int 0) (int 0) (painted sh {} col) = Inl IndexError"
    by (rule structure_y_body_index_error[where a=1 and b=1 and d="nat D"
            and depth_map=depth_map and resized=resized])
       (use assms in \<open>simp_all add: sh_def col_def depth_map_def\<close>)
  then have "for_each (py_range 1) (\<lambda>x. for_each (py_range 1) (structure_y_body resized depth_map D x))
               (painted sh {} col) = Inl IndexError"
    by (simp add: py_range_def)
  then show ?thesis
    unfolding structure_based_unfold[of 1, simplified]
    by (simp add: ng resized_def depth_map_def)
qed

text \<open>
  The result of the structure-depth strategy for every number of levels: grids when the
  distance field is zero or the \<^verbatim>\<open>float32\<close> value of \<open>depth_levels - 1\<close> does not exceed
  \<open>depth_levels - 1\<close>, and \<^verbatim>\<open>IndexError\<close> otherwise.
\<close>

lemma max_dist_attained:
  assumes "0 < r"
  shows "\<exists>x<nat r. \<exists>y<nat r. dist_at cv img r x y = max_dist_at cv img r"
proof -
  define xs where "xs = concat (map (\<lambda>y. map (\<lambda>x. dist_at cv img r x y) [0..<nat r]) [0..<nat r])"
  have m: "max_dist_at cv img r = Max (set (dist_at cv img r 0 0 # xs))"
    unfolding max_dist_at_def xs_def by (rule Max.set_eq_fold[symmetric])
  have "Max (set (dist_at cv img r 0 0 # xs)) \<in> set (dist_at cv img r 0 0 # xs)"
    by (rule Max_in) simp_all
  then consider "max_dist_at cv img r = dist_at cv img r 0 0" | "max_dist_at cv img r \<in> set xs"
    unfolding m[symmetric] by auto
  then show ?thesis
  proof cases
    case 1
    moreover have "0 < nat r" using assms by simp
    ultimately show ?thesis by metis
  next
    case 2
    then obtain y x where "y < nat r" "x < nat r" "max_dist_at cv img r = dist_at cv img r x y"
      unfolding xs_def by auto
    then show ?thesis by metis
  qed
qed

lemma depth_at_le_scale:
  assumes "x < nat r" "y < nat r" "0 \<le> dist_at cv img r x y" "1 \<le> D"
  shows "0 \<le> depth_at cv img r D x y" and "of_int (depth_at cv img r D x y) \<le> f32 (of_int (D - 1))"
proof -
  have le: "dist_at cv img r x y \<le> max_dist_at cv img r" using assms(1,2) by (rule dist_at_le_max)
  have F0: "0 \<le> f32 (of_int (D - 1))" by (rule f32_nonneg) (use assms(4) in simp)
  show "0 \<le> depth_at cv img r D x y"
    using depth_of_le_scale(1)[OF assms(3) le _ assms(4)] by (simp add: depth_at_def)
  show "of_int (depth_at cv img r D x y) \<le> f32 (of_int (D - 1))"
    using depth_of_le_scale(2)[OF assms(3) le _ assms(4)] F0 by (simp add: depth_at_def)
qed

lemma structure_y_body_error:
  assumes "structure_y_body resized depth_map D x y s = Inl e"
  shows "e = IndexError"
proof -
  have l: "for_each (py_range (depth_map (nat y) (nat x) + 1))
             (structure_z_body (resized (nat y) (nat x)) D x y) s = Inl e"
    using assms by (simp add: structure_y_body_def Let_def)
  show ?thesis
  proof (rule for_each_error_kind[where P="\<lambda>_. True", OF l])
    fix z u e' assume "structure_z_body (resized (nat y) (nat x)) D x y z u = Inl e'"
    then show "e' = IndexError" unfolding structure_z_body_def by (rule mark_error)
  qed simp_all
qed

lemma structure_based_overflow:
  assumes "0 < r" "0 \<le> D" "x < nat r" "y < nat r" "D \<le> depth_at cv img r D x y"
  shows "structure_based_voxels cv img r D = Inl IndexError"
proof -
  define resized where "resized = interpolate cv img (nat r)"
  define depth_map where "depth_map = (\<lambda>y x. depth_at cv img r D x y)"
  define col where "col = (\<lambda>(x :: nat, y :: nat, z :: nat). darken (resized y x) (color_intensity (int z) D))"
  define sh where "sh = (nat r, nat r, nat D)"
  define P where "P = is_painted sh col"
  have ng: "new_grids r D = Inr (painted sh {} col)"
    unfolding sh_def by (rule new_grids_painted) (use assms in simp_all)
  have P0: "P (painted sh {} col)" unfolding P_def is_painted_def by blast
  have pres: "P u'" if "0 \<le> i" "0 \<le> j" "P u" "structure_y_body resized depth_map D i j u = Inr u'"
    for i j u u'
    unfolding P_def
    by (rule structure_y_body_is_painted[OF that(4) that(3)[unfolded P_def] that(1,2)]) (simp add: col_def)
  have bad: "structure_y_body resized depth_map D (int x) (int y) u = Inl IndexError" if "P u" for u
  proof -
    from that obtain W where u: "u = painted sh W col" by (auto simp: P_def is_painted_def)
    show ?thesis unfolding u
      by (rule structure_y_body_index_error[where a="nat r" and b="nat r" and d="nat D"
              and depth_map=depth_map and resized=resized])
         (use assms in \<open>simp_all add: sh_def col_def depth_map_def\<close>)
  qed
  have inner: "for_each (py_range r) (structure_y_body resized depth_map D (int x)) u = Inl IndexError"
    if "P u" for u
  proof (rule for_each_fails[where P=P and k="int y", OF that])
    fix j w w' assume "j \<in> set (py_range r)" "P w" "structure_y_body resized depth_map D (int x) j w = Inr w'"
    then show "P w'" using pres[of "int x" j w w'] by (simp add: set_py_range)
  next
    fix j w e' assume "structure_y_body resized depth_map D (int x) j w = Inl e'"
    then show "e' = IndexError" by (rule structure_y_body_error)
  next
    show "int y \<in> set (py_range r)" using assms(4) by (simp add: set_py_range)
  next
    fix w assume "P w" then show "structure_y_body resized depth_map D (int x) (int y) w = Inl IndexError"
      by (rule bad)
  qed
  have "for_each (py_range r) (\<lambda>x. for_each (py_range r) (structure_y_body resized depth_map D x))
          (painted sh {} col) = Inl IndexError"
  proof (rule for_each_fails[where P=P and k="int x", OF P0])
    fix i u u' assume i: "i \<in> set (py_range r)" and u: "P u"
      and b: "for_each (py_range r) (structure_y_body resized depth_map D i) u = Inr u'"
    show "P u'"
    proof (rule for_each_preserves[where P=P, OF b u])
      fix j w w' assume "j \<in> set (py_range r)" "P w" "structure_y_body resized depth_map D i j w = Inr w'"
      then show "P w'" using pres[of i j w w'] i by (simp add: set_py_range)
    qed
  next
    fix i u e' assume i: "i \<in> set (py_range r)" and u: "P u"
      and b: "for_each (py_range r) (structure_y_body resized depth_map D i) u = Inl e'"
    show "e' = IndexError"
    proof (rule for_each_error_kind[where P="\<lambda>_. True", OF b])
      fix j w e'' assume "structure_y_body resized depth_map D i j w = Inl e''"
      then show "e'' = IndexError" by (rule structure_y_body_error)
    qed simp_all
  next
    show "int x \<in> set (py_range r)" using assms(3) by (simp add: set_py_range)
  next
    fix u assume "P u"
    then show "for_each (py_range r) (structure_y_body resized depth_map D (int x)) u = Inl IndexError"
      by (rule inner)
  qed
  then show ?thesis
    unfolding structure_based_unfold[OF assms(1)]
    by (simp add: ng resized_def depth_map_def)
qed

lemma structure_based_painted_depths:
  assumes "0 < r" "0 \<le> D"
    and "\<And>x y. x < nat r \<Longrightarrow> y < nat r \<Longrightarrow>
           0 \<le> depth_at cv img r D x y \<and> depth_at cv img r D x y < D"
  shows "structure_based_voxels cv img r D
           = Inr (painted (nat r, nat r, nat D)
                   {(x, y, z). x < nat r \<and> y < nat r \<and> int z \<le> depth_at cv img r D x y}
                   (\<lambda>(x, y, z). darken (interpolate cv img (nat r) y x) (color_intensity (int z) D)))"
proof -
  define resized where "resized = interpolate cv img (nat r)"
  define depth_map where "depth_map = (\<lambda>y x. depth_at cv img r D x y)"
  define col where "col = (\<lambda>(x :: nat, y :: nat, z :: nat). darken (resized y x) (color_intensity (int z) D))"
  define sh where "sh = (nat r, nat r, nat D)"
  have loop: "for_each (py_range r) (\<lambda>x. for_each (py_range r) (structure_y_body resized depth_map D x))
                (painted sh {} col)
           = Inr (painted sh ({} \<union> (\<Union>x\<in>{..<nat r}. \<Union>y\<in>{..<nat r}. {(x, y, z) | z. int z \<le> depth_map y x})) col)"
  proof (rule for_xy_painted)
    fix x y W assume xy: "x < nat r" "y < nat r"
    have d0: "0 \<le> depth_map y x" and d1: "depth_map y x < int (nat D)"
      using assms(3)[OF xy] assms(2) by (simp_all add: depth_map_def)
    show "structure_y_body resized depth_map D (int x) (int y) (painted sh W col)
            = Inr (painted sh (W \<union> {(x, y, z) | z. int z \<le> depth_map y x}) col)"
      by (rule structure_y_body_painted[where a="nat r" and b="nat r" and d="nat D"
              and depth_map=depth_map and resized=resized])
         (use xy d0 d1 in \<open>simp_all add: sh_def col_def\<close>)
  qed
  have set: "{} \<union> (\<Union>x\<in>{..<nat r}. \<Union>y\<in>{..<nat r}. {(x, y, z) | z. int z \<le> depth_map y x})
           = {(x, y, z). x < nat r \<and> y < nat r \<and> int z \<le> depth_at cv img r D x y}"
    by (auto simp: depth_map_def)
  have ng: "new_grids r D = Inr (painted sh {} col)"
    unfolding sh_def by (rule new_grids_painted) (use assms in simp_all)
  have loop': "for_each (py_range r) (\<lambda>x. for_each (py_range r) (structure_y_body resized depth_map D x))
                (painted sh {} col)
           = Inr (painted sh {(x, y, z). x < nat r \<and> y < nat r \<and> int z \<le> depth_at cv img r D x y} col)"
    using loop unfolding set .
  show ?thesis
    unfolding structure_based_unfold[OF assms(1)]
    using loop' by (simp add: ng flip: resized_def depth_map_def col_def sh_def)
qed

lemma depth_at_in_range:
  assumes "x < nat r" "y < nat r" "0 \<le> dist_at cv img r x y" "1 \<le> D"
    and "max_dist_at cv img r \<le> 0 \<or> f32 (of_int (D - 1)) \<le> of_int (D - 1)"
  shows "0 \<le> depth_at cv img r D x y \<and> depth_at cv img r D x y < D"
proof (cases "0 < max_dist_at cv img r")
  case False
  then show ?thesis using assms(4) by (simp add: depth_at_def)
next
  case True
  then have F: "f32 (of_int (D - 1)) \<le> of_int (D - 1)" using assms(5) by simp
  have "(of_int (depth_at cv img r D x y) :: rat) \<le> of_int (D - 1)"
    using depth_at_le_scale(2)[OF assms(1-4)] F by (rule order_trans)
  then have "depth_at cv img r D x y \<le> D - 1" by (simp only: of_int_le_iff)
  then show ?thesis using depth_at_le_scale(1)[OF assms(1-4)] by simp
qed

lemma depth_at_overflow:
  assumes "0 < r" "1 \<le> D" "0 < max_dist_at cv img r"
    and "\<not> f32 (of_int (D - 1)) \<le> of_int (D - 1)"
  shows "\<exists>x<nat r. \<exists>y<nat r. D \<le> depth_at cv img r D x y"
proof -
  obtain x y where xy: "x < nat r" "y < nat r" and m: "dist_at cv img r x y = max_dist_at cv img r"
    using max_dist_attained[OF assms(1), of cv img] by auto
  obtain k where k: "f32 (of_int (D - 1)) = of_int k"
    using f32_of_int_integral[of "D - 1"] assms(2) by auto
  have "(of_int (D - 1) :: rat) < of_int k" using assms(4) unfolding k by simp
  then have kD: "D \<le> k" by simp
  have "depth_at cv img r D x y = depth_of (max_dist_at cv img r) (max_dist_at cv img r) D"
    using assms(3) by (simp add: depth_at_def m)
  also have "\<dots> = astype_int (f32 (of_int (D - 1)))" using assms(3,2) by (rule depth_of_max)
  also have "\<dots> = k" unfolding k by (simp add: astype_int_def)
  finally have "D \<le> depth_at cv img r D x y" using kD by simp
  then show ?thesis using xy by auto
qed

lemma structure_based_result:
  assumes "0 < r" "1 \<le> D"
    and "\<And>x y. x < nat r \<Longrightarrow> y < nat r \<Longrightarrow> 0 \<le> dist_at cv img r x y"
  shows "structure_based_voxels cv img r D
           = (if max_dist_at cv img r \<le> 0 \<or> f32 (of_int (D - 1)) \<le> of_int (D - 1)
              then Inr (painted (nat r, nat r, nat D)
                     {(x, y, z). x < nat r \<and> y < nat r \<and> int z \<le> depth_at cv img r D x y}
                     (\<lambda>(x, y, z). darken (interpolate cv img (nat r) y x) (color_intensity (int z) D)))
              else Inl IndexError)"
proof (cases "max_dist_at cv img r \<le> 0 \<or> f32 (of_int (D - 1)) \<le> of_int (D - 1)")
  case True
  have D0: "0 \<le> D" using assms(2) by simp
  have "structure_based_voxels cv img r D
           = Inr (painted (nat r, nat r, nat D)
                   {(x, y, z). x < nat r \<and> y < nat r \<and> int z \<le> depth_at cv img r D x y}
                   (\<lambda>(x, y, z). darken (interpolate cv img (nat r) y x) (color_intensity (int z) D)))"
  proof (rule structure_based_painted_depths[OF assms(1) D0])
    fix x y assume xy: "x < nat r" "y < nat r"
    show "0 \<le> depth_at cv img r D x y \<and> depth_at cv img r D x y < D"
      by (rule depth_at_in_range[OF xy assms(3)[OF xy] assms(2) True])
  qed
  then show ?thesis using True by simp
next
  case False
  then have m: "0 < max_dist_at cv img r" and F: "\<not> f32 (of_int (D - 1)) \<le> of_int (D - 1)"
    by simp_all
  obtain x y where xy: "x < nat r" "y < nat r" "D \<le> depth_at cv img r D x y"
    using depth_at_overflow[OF assms(1,2) m F] by auto
  have D0: "0 \<le> D" using assms(2) by simp
  have "structure_based_voxels cv img r D = Inl IndexError"
    by (rule structure_based_overflow[OF assms(1) D0 xy])
  then show ?thesis using False by simp
qed


section \<open>Reading off filled grids\<close>

lemma is_painted_cells:
  assumes "is_painted sh col (voxel_grid, colors)"
  shows "shape voxel_grid = sh" "shape colors = sh"
    and "cell voxel_grid c \<Longrightarrow> in_shape sh c"
    and "cell voxel_grid c \<Longrightarrow> cell colors c = col c"
    and "\<not> cell voxel_grid c \<Longrightarrow> cell colors c = (0, 0, 0)"
  using assms by (auto simp: is_painted_def painted_def)

text \<open>Two darkened colours, evaluated one rounding at a time.\<close>

lemma color_intensity_1_24: "color_intensity 1 24 = 8819549270267221 / 9007199254740992"
proof -
  have a: "f64 (of_int 1 / of_int (max 24 1)) = 6004799503160661 / 144115188075855872"
    by code_simp
  have b: "f64 (6004799503160661 / 144115188075855872 * (1 / 2)) = 6004799503160661 / 288230376151711744"
    by code_simp
  have c: "f64 (1 - 6004799503160661 / 288230376151711744) = 8819549270267221 / 9007199254740992"
    by code_simp
  show ?thesis unfolding color_intensity_def a b c ..
qed

lemma color_intensity_2_24: "color_intensity 2 24 = 8631899285793451 / 9007199254740992"
proof -
  have a: "f64 (of_int 2 / of_int (max 24 1)) = 6004799503160661 / 72057594037927936"
    by code_simp
  have b: "f64 (6004799503160661 / 72057594037927936 * (1 / 2)) = 6004799503160661 / 144115188075855872"
    by code_simp
  have c: "f64 (1 - 6004799503160661 / 144115188075855872) = 8631899285793451 / 9007199254740992"
    by code_simp
  show ?thesis unfolding color_intensity_def a b c ..
qed

lemma darken_white_1_24: "darken (255, 255, 255) (color_intensity 1 24) = (249, 249, 249)"
proof -
  have "astype_int (f64 (255 * (8819549270267221 / 9007199254740992))) = 249"
    by code_simp
  then show ?thesis by (simp add: darken_def astype_u8_def color_intensity_1_24)
qed

lemma darken_orange_2_24: "darken (200, 100, 50) (color_intensity 2 24) = (191, 95, 47)"
proof -
  have "astype_int (f64 (200 * (8631899285793451 / 9007199254740992))) = 191"
    and "astype_int (f64 (100 * (8631899285793451 / 9007199254740992))) = 95"
    and "astype_int (f64 (50 * (8631899285793451 / 9007199254740992))) = 47"
    by code_simp+
  then show ?thesis by (simp add: darken_def astype_u8_def color_intensity_2_24)
qed

section \<open>Resolution check and dependence on the sample\<close>

lemma nonpositive_resolution:
  assumes "r \<le> 0"
  shows "height_based_voxels cv img r h = Inl InvalidResolution"
    and "color_layered_voxels cv img r L = Inl InvalidResolution"
    and "structure_based_voxels cv img r D = Inl InvalidResolution"
  using assms
  by (simp_all add: height_based_voxels_def color_layered_voxels_def structure_based_voxels_def
        cv2_resize_def)

lemma for_xy_cong:
  assumes "\<And>x y s. x < nat r \<Longrightarrow> y < nat r \<Longrightarrow> f (int x) (int y) s = g (int x) (int y) s"
  shows "for_each (py_range r) (\<lambda>x. for_each (py_range r) (f x)) s
           = for_each (py_range r) (\<lambda>x. for_each (py_range r) (g x)) s"
proof (rule for_each_cong)
  fix x u assume x: "x \<in> set (py_range r)"
  show "for_each (py_range r) (f x) u = for_each (py_range r) (g x) u"
  proof (rule for_each_cong)
    fix y w assume y: "y \<in> set (py_range r)"
    have "nat x < nat r" "nat y < nat r" "int (nat x) = x" "int (nat y) = y"
      using x y by (auto simp: set_py_range)
    then show "f x y w = g x y w" using assms[of "nat x" "nat y" w] by simp
  qed
qed

lemma max_dist_at_cong:
  assumes "0 < r"
    and "\<And>x y. x < nat r \<Longrightarrow> y < nat r \<Longrightarrow> dist_at cv img r x y = dist_at cv' img' r x y"
  shows "max_dist_at cv img r = max_dist_at cv' img' r"
proof -
  have e1: "map (\<lambda>y. map (\<lambda>x. dist_at cv img r x y) [0..<nat r]) [0..<nat r]
          = map (\<lambda>y. map (\<lambda>x. dist_at cv' img' r x y) [0..<nat r]) [0..<nat r]"
    by (intro map_cong refl) (simp add: assms(2))
  have e2: "dist_at cv img r 0 0 = dist_at cv' img' r 0 0"
    using assms by simp
  show ?thesis unfolding max_dist_at_def e1 e2 ..
qed

section \<open>The encoder and the orchestrator\<close>


lemma length_filter_sum: "length (filter P xs) = sum_list (map (\<lambda>z. if P z then 1 else 0) xs)"
  by (induction xs) simp_all

lemma length_np_where: "length (np_where a) = np_sum a"
proof -
  obtain sx sy sz where sh: "shape a = (sx, sy, sz)" by (cases "shape a")
  show ?thesis
    by (simp add: np_where_def np_sum_def sh length_concat comp_def length_filter_sum)
qed

lemma set_np_where: "set (np_where a) = {c. in_shape (shape a) c \<and> cell a c}"
proof -
  obtain sx sy sz where sh: "shape a = (sx, sy, sz)" by (cases "shape a")
  have "c \<in> set (np_where a) \<longleftrightarrow> in_shape (shape a) c \<and> cell a c" for c
  proof (cases c)
    case (fields x y z)
    show ?thesis unfolding fields by (auto simp: np_where_def sh in_shape_def image_iff)
  qed
  then show ?thesis by blast
qed

lemma sorted_blocks:
  fixes f :: "nat \<Rightarrow> nat list"
  assumes "\<And>i. i < n \<Longrightarrow> sorted_wrt (<) (f i)"
    and "\<And>i v. i < n \<Longrightarrow> v \<in> set (f i) \<Longrightarrow> (b + i) * m \<le> v \<and> v < (b + i + 1) * m"
  shows "sorted_wrt (<) (concat (map f [0..<n]))
       \<and> (\<forall>v \<in> set (concat (map f [0..<n])). b * m \<le> v \<and> v < (b + n) * m)"
  using assms
proof (induction n)
  case 0
  show ?case by simp
next
  case (Suc n)
  have IH: "sorted_wrt (<) (concat (map f [0..<n]))
       \<and> (\<forall>v \<in> set (concat (map f [0..<n])). b * m \<le> v \<and> v < (b + n) * m)"
  proof (rule Suc.IH)
    fix i assume "i < n"
    then show "sorted_wrt (<) (f i)" using Suc.prems(1)[of i] by simp
  next
    fix i v assume "i < n" "v \<in> set (f i)"
    then show "(b + i) * m \<le> v \<and> v < (b + i + 1) * m" using Suc.prems(2)[of i v] by simp
  qed
  have ih: "sorted_wrt (<) (concat (map f [0..<n]))" using IH by (rule conjunct1)
  have bd: "\<And>v. v \<in> set (concat (map f [0..<n])) \<Longrightarrow> b * m \<le> v \<and> v < (b + n) * m"
    using IH by blast
  have last: "sorted_wrt (<) (f n)" using Suc.prems(1)[of n] by simp
  have lb: "\<And>v. v \<in> set (f n) \<Longrightarrow> (b + n) * m \<le> v \<and> v < (b + n + 1) * m"
    using Suc.prems(2)[of n] by simp
  have cross: "\<forall>u\<in>set (concat (map f [0..<n])). \<forall>v\<in>set (f n). u < v"
  proof (intro ballI)
    fix u v assume "u \<in> set (concat (map f [0..<n]))" "v \<in> set (f n)"
    then have "u < (b + n) * m" "(b + n) * m \<le> v" using bd lb by blast+
    then show "u < v" by simp
  qed
  have s: "sorted_wrt (<) (concat (map f [0..<Suc n]))"
    using ih last cross by (simp add: sorted_wrt_append)
  have "b * m \<le> v \<and> v < (b + Suc n) * m" if "v \<in> set (concat (map f [0..<Suc n]))" for v
  proof -
    from that consider "v \<in> set (concat (map f [0..<n]))" | "v \<in> set (f n)" by auto
    then show ?thesis
    proof cases
      case 1
      then have "b * m \<le> v" "v < (b + n) * m" using bd by blast+
      moreover have "(b + n) * m \<le> (b + Suc n) * m" by simp
      ultimately show ?thesis by linarith
    next
      case 2
      then have "(b + n) * m \<le> v" "v < (b + n + 1) * m" using lb by blast+
      moreover have "b * m \<le> (b + n) * m" by simp
      moreover have "(b + Suc n) * m = (b + n + 1) * m" by simp
      ultimately show ?thesis by linarith
    qed
  qed
  with s show ?case by blast
qed

lemma sorted_np_where: "sorted_wrt (<) (map (ravel (shape a)) (np_where a))"
proof -
  obtain sx sy sz where sh: "shape a = (sx, sy, sz)" by (cases "shape a")
  define col where "col = (\<lambda>x y. map (\<lambda>z. (x * sy + y) * sz + z) (filter (\<lambda>z. cell a (x, y, z)) [0..<sz]))"
  define row where "row = (\<lambda>x. concat (map (col x) [0..<sy]))"
  have m: "map (ravel (shape a)) (np_where a) = concat (map row [0..<sx])"
    by (simp add: np_where_def sh ravel_def map_concat comp_def row_def col_def)
  have col_sorted: "sorted_wrt (<) (col x y)" for x y
    unfolding col_def by (simp add: sorted_wrt_map sorted_wrt_filter)
  have col_bounds: "(x * sy + y) * sz \<le> v \<and> v < (x * sy + y + 1) * sz" if "v \<in> set (col x y)" for x y v
    using that by (auto simp: col_def)
  have row_all: "sorted_wrt (<) (row x) \<and> (\<forall>v \<in> set (row x). (x * sy) * sz \<le> v \<and> v < (x * sy + sy) * sz)"
    for x
    unfolding row_def by (rule sorted_blocks[where b="x * sy" and m=sz]) (rule col_sorted, rule col_bounds)
  have "sorted_wrt (<) (concat (map row [0..<sx]))
       \<and> (\<forall>v \<in> set (concat (map row [0..<sx])). 0 * (sy * sz) \<le> v \<and> v < (0 + sx) * (sy * sz))"
  proof (rule sorted_blocks)
    fix x assume "x < sx"
    show "sorted_wrt (<) (row x)" using row_all by blast
  next
    fix x v assume "x < sx" "v \<in> set (row x)"
    then have "(x * sy) * sz \<le> v \<and> v < (x * sy + sy) * sz" using row_all by blast
    then show "(0 + x) * (sy * sz) \<le> v \<and> v < (0 + x + 1) * (sy * sz)"
      by (simp add: algebra_simps)
  qed
  then show ?thesis unfolding m by blast
qed

lemma distinct_np_where: "distinct (np_where a)"
proof -
  have "distinct (map (ravel (shape a)) (np_where a))"
    using sorted_np_where[of a] by (simp add: strict_sorted_iff)
  then show ?thesis by (simp add: distinct_map)
qed

lemma fold_mark_cells: "fold (\<lambda>c g. g(c := True)) ps g0 c = (c \<in> set ps \<or> g0 c)"
  by (induction ps arbitrary: g0) auto

lemma cell_reconstruct: "cell (reconstruct p) c = (c \<in> set (npz_positions p))"
  by (simp add: reconstruct_def fold_mark_cells)

lemma unknown_method_unbound:
  assumes "method \<noteq> ''all''" "method \<noteq> ''height''" "method \<noteq> ''color''" "method \<noteq> ''structure''"
    and "path_exists w image_path" "imread w image_path = Some img"
  shows "convert_image w cv image_path method kwargs = ([ImageLoaded image_path], Inl UnboundLocalError)"
  using assms by (simp add: convert_image_def run_method_def)

section \<open>Claims about the height strategy\<close>

text \<open>
  C1 (as amended). For every image, every resolution \<open>r > 0\<close> and every \<open>max_height\<close> \<open>h\<close> with
  \<open>0 < h \<le> 2^53\<close>, the height strategy returns an occupancy grid and a colour grid of shape
  \<open>(r, r, h)\<close>. In every column \<open>(x, y)\<close> the occupied cells are exactly those with
  \<open>z < height(x, y)\<close>, where \<open>height(x, y)\<close> is the double-precision product
  \<^verbatim>\<open>(gray[y, x] / 255.0) * max_height\<close> truncated to an integer; it lies between \<open>0\<close> and \<open>h\<close>, so a
  column of height \<open>0\<close> has no occupied voxel. Every occupied voxel of the column carries the
  colour of the resized sample at \<open>(x, y)\<close>.
\<close>

theorem height_strategy_columns:
  assumes "0 < r" "0 < h" "h \<le> 2 ^ 53"
  shows "\<exists>voxel_grid colors.
           height_based_voxels cv img r h = Inr (voxel_grid, colors)
         \<and> shape voxel_grid = (nat r, nat r, nat h)
         \<and> shape colors = (nat r, nat r, nat h)
         \<and> (\<forall>x<nat r. \<forall>y<nat r.
               0 \<le> height_at cv img r h x y \<and> height_at cv img r h x y \<le> h
             \<and> (\<forall>z. cell voxel_grid (x, y, z) = (int z < height_at cv img r h x y))
             \<and> (\<forall>z. cell voxel_grid (x, y, z) \<longrightarrow>
                      cell colors (x, y, z) = interpolate cv img (nat r) y x))"
proof -
  have h0: "0 \<le> h" using assms(2) by simp
  have b: "0 \<le> height_at cv img r h x y \<and> height_at cv img r h x y \<le> h" for x y
    unfolding height_at_def using heights_of_bounds[OF h0 assms(3)] by blast
  show ?thesis
    unfolding height_based_painted[OF assms(1) h0 assms(3)] painted_def
    using b by simp
qed

text \<open>
  C1 as stated takes \<open>height(x, y)\<close> to be the exact floor of \<open>(gray / 255) * H\<close>. For a grey
  value of \<open>155\<close> and \<open>H = 51\<close> that floor is \<open>31\<close>, but the rounded product is just below \<open>31\<close>
  and the code leaves the cell at \<open>z = 30\<close> empty.
\<close>

theorem height_strategy_floor_counterexample:
  "rgb2gray (flat_cv (155, 155, 155) 155 (0, 0, 155) 0) 1
      (interpolate (flat_cv (155, 155, 155) 155 (0, 0, 155) 0) () 1) 0 0 = 155
   \<and> \<lfloor>(155 / 255 :: rat) * 51\<rfloor> = 31
   \<and> \<not> isl (height_based_voxels (flat_cv (155, 155, 155) 155 (0, 0, 155) 0) () 1 51)
   \<and> \<not> cell (fst (projr (height_based_voxels (flat_cv (155, 155, 155) 155 (0, 0, 155) 0) () 1 51)))
          (0, 0, 30)"
proof -
  have "height_at (flat_cv (155, 155, 155) 155 (0, 0, 155) 0) () 1 51 0 0 = 30"
    by code_simp
  then show ?thesis
    by (simp add: height_based_painted painted_def flat_cv_def)
qed

text \<open>
  The scenario of the specification: a uniform mid-grey image at resolution \<open>4\<close> with
  \<open>max_height = 8\<close> has columns of height \<open>4\<close>.
\<close>

theorem height_strategy_columns_witness:
  "cell (fst (projr (height_based_voxels (flat_cv (128, 128, 128) 128 (0, 0, 128) 0) () 4 8))) (2, 3, 3)
   \<and> \<not> cell (fst (projr (height_based_voxels (flat_cv (128, 128, 128) 128 (0, 0, 128) 0) () 4 8))) (2, 3, 4)
   \<and> cell (snd (projr (height_based_voxels (flat_cv (128, 128, 128) 128 (0, 0, 128) 0) () 4 8))) (2, 3, 3)
       = (128, 128, 128)"
proof -
  have h: "height_at (flat_cv (128, 128, 128) 128 (0, 0, 128) 0) () 4 8 2 3 = 4"
    by code_simp
  from height_strategy_columns[of 4 8 "flat_cv (128, 128, 128) 128 (0, 0, 128) 0" "()"]
  obtain voxel_grid colors where
    r: "height_based_voxels (flat_cv (128, 128, 128) 128 (0, 0, 128) 0) () 4 8 = Inr (voxel_grid, colors)"
    and c: "\<forall>x<nat 4. \<forall>y<nat 4.
               0 \<le> height_at (flat_cv (128, 128, 128) 128 (0, 0, 128) 0) () 4 8 x y
             \<and> height_at (flat_cv (128, 128, 128) 128 (0, 0, 128) 0) () 4 8 x y \<le> 8
             \<and> (\<forall>z. cell voxel_grid (x, y, z)
                     = (int z < height_at (flat_cv (128, 128, 128) 128 (0, 0, 128) 0) () 4 8 x y))
             \<and> (\<forall>z. cell voxel_grid (x, y, z) \<longrightarrow>
                      cell colors (x, y, z)
                        = interpolate (flat_cv (128, 128, 128) 128 (0, 0, 128) 0) () (nat 4) y x)"
    by auto
  have "(2::nat) < nat 4" "(3::nat) < nat 4" by simp_all
  with c have
    o: "\<forall>z. cell voxel_grid (2, 3, z)
             = (int z < height_at (flat_cv (128, 128, 128) 128 (0, 0, 128) 0) () 4 8 2 3)"
    and k: "\<forall>z. cell voxel_grid (2, 3, z) \<longrightarrow>
                cell colors (2, 3, z) = interpolate (flat_cv (128, 128, 128) 128 (0, 0, 128) 0) () (nat 4) 3 2"
    by blast+
  have "cell voxel_grid (2, 3, 3)" "\<not> cell voxel_grid (2, 3, 4)" using o by (simp_all add: h)
  moreover from this k have "cell colors (2, 3, 3) = (128, 128, 128)"
    by (simp add: flat_cv_def)
  ultimately show ?thesis by (simp add: r)
qed

section \<open>Claims about the hue-layer strategy\<close>

text \<open>
  C2 (as amended). For every image, every resolution \<open>r > 0\<close> and every layer count \<open>L > 0\<close>, the
  hue-layer strategy returns grids of shape \<open>(r, r, L)\<close>. For a pixel of the resized sample whose
  saturation is at most \<open>30\<close> or whose value is at most \<open>30\<close>, no voxel of the column is occupied.
  For a pixel with saturation above \<open>30\<close> and value above \<open>30\<close>, exactly one voxel of the column is
  occupied, at \<open>z = hue_layer\<close>, where \<open>hue_layer\<close> is the double-precision product
  \<^verbatim>\<open>(hue / 180.0) * layers\<close> truncated to an integer and then capped at \<open>L - 1\<close>; that voxel carries
  the colour of the resized sample at \<open>(x, y)\<close>.
\<close>

theorem hue_layer_strategy_columns:
  assumes "0 < r" "0 < L"
  shows "\<exists>voxel_grid colors.
           color_layered_voxels cv img r L = Inr (voxel_grid, colors)
         \<and> shape voxel_grid = (nat r, nat r, nat L)
         \<and> shape colors = (nat r, nat r, nat L)
         \<and> (\<forall>x<nat r. \<forall>y<nat r.
               (fst (snd (hsv_at cv img r x y)) \<le> 30 \<or> snd (snd (hsv_at cv img r x y)) \<le> 30
                  \<longrightarrow> (\<forall>z. \<not> cell voxel_grid (x, y, z)))
             \<and> (30 < fst (snd (hsv_at cv img r x y)) \<and> 30 < snd (snd (hsv_at cv img r x y))
                  \<longrightarrow> 0 \<le> hue_layer_of (fst (hsv_at cv img r x y)) L
                    \<and> hue_layer_of (fst (hsv_at cv img r x y)) L \<le> L - 1
                    \<and> (\<forall>z. cell voxel_grid (x, y, z)
                            = (int z = hue_layer_of (fst (hsv_at cv img r x y)) L))
                    \<and> cell colors (x, y, nat (hue_layer_of (fst (hsv_at cv img r x y)) L))
                        = interpolate cv img (nat r) y x))"
proof -
  have L: "1 \<le> L" using assms(2) by simp
  have b: "0 \<le> hue_layer_of h L \<and> hue_layer_of h L \<le> L - 1" for h
    using hue_layer_of_bounds[OF L, of h] by simp
  show ?thesis
    unfolding color_layered_painted[OF assms(1) L] painted_def
    using b by (auto simp: not_less)
qed

text \<open>
  C2 as stated takes \<open>hue_layer\<close> to be the exact floor of \<open>(hue / 180) * L\<close>, capped at \<open>L - 1\<close>.
  For a hue of \<open>52\<close> and \<open>L = 45\<close> that is \<open>13\<close>, but the rounded product is just below \<open>13\<close> and the
  code fills the cell at \<open>z = 12\<close> and leaves \<open>z = 13\<close> empty.
\<close>

theorem hue_layer_floor_counterexample:
  "hsv_at (flat_cv (68, 255, 0) 170 (52, 255, 255) 0) () 1 0 0 = (52, 255, 255)
   \<and> min \<lfloor>(52 / 180 :: rat) * 45\<rfloor> (45 - 1) = 13
   \<and> \<not> isl (color_layered_voxels (flat_cv (68, 255, 0) 170 (52, 255, 255) 0) () 1 45)
   \<and> \<not> cell (fst (projr (color_layered_voxels (flat_cv (68, 255, 0) 170 (52, 255, 255) 0) () 1 45)))
          (0, 0, 13)
   \<and> cell (fst (projr (color_layered_voxels (flat_cv (68, 255, 0) 170 (52, 255, 255) 0) () 1 45)))
          (0, 0, 12)"
proof -
  have h: "hsv_at (flat_cv (68, 255, 0) 170 (52, 255, 255) 0) () 1 0 0 = (52, 255, 255)"
    by (simp add: hsv_at_def flat_cv_def)
  have "hue_layer_of 52 45 = 12"
    by code_simp
  then show ?thesis
    by (simp add: color_layered_painted painted_def h)
qed

text \<open>A saturated pixel of hue \<open>90\<close> with \<open>16\<close> layers lands in layer \<open>8\<close>.\<close>

theorem hue_layer_strategy_columns_witness:
  "cell (fst (projr (color_layered_voxels (flat_cv (30, 200, 200) 149 (90, 217, 200) 0) () 3 16))) (2, 2, 8)
   \<and> \<not> cell (fst (projr (color_layered_voxels (flat_cv (30, 200, 200) 149 (90, 217, 200) 0) () 3 16))) (2, 2, 7)
   \<and> cell (snd (projr (color_layered_voxels (flat_cv (30, 200, 200) 149 (90, 217, 200) 0) () 3 16))) (2, 2, 8)
       = (30, 200, 200)"
proof -
  define cv where "cv = flat_cv (30, 200, 200) 149 (90, 217, 200) 0"
  have h: "hsv_at cv () 3 2 2 = (90, 217, 200)"
    by (simp add: hsv_at_def flat_cv_def cv_def)
  have l: "hue_layer_of 90 16 = 8"
    by code_simp
  from hue_layer_strategy_columns[of 3 16 cv "()"]
  obtain voxel_grid colors where
    r: "color_layered_voxels cv () 3 16 = Inr (voxel_grid, colors)"
    and c: "\<forall>x<nat 3. \<forall>y<nat 3.
               (fst (snd (hsv_at cv () 3 x y)) \<le> 30 \<or> snd (snd (hsv_at cv () 3 x y)) \<le> 30
                  \<longrightarrow> (\<forall>z. \<not> cell voxel_grid (x, y, z)))
             \<and> (30 < fst (snd (hsv_at cv () 3 x y)) \<and> 30 < snd (snd (hsv_at cv () 3 x y))
                  \<longrightarrow> 0 \<le> hue_layer_of (fst (hsv_at cv () 3 x y)) 16
                    \<and> hue_layer_of (fst (hsv_at cv () 3 x y)) 16 \<le> 16 - 1
                    \<and> (\<forall>z. cell voxel_grid (x, y, z)
                            = (int z = hue_layer_of (fst (hsv_at cv () 3 x y)) 16))
                    \<and> cell colors (x, y, nat (hue_layer_of (fst (hsv_at cv () 3 x y)) 16))
                        = interpolate cv () (nat 3) y x)"
    by auto
  have "(2::nat) < nat 3" by simp
  with c have
    "30 < fst (snd (hsv_at cv () 3 2 2)) \<and> 30 < snd (snd (hsv_at cv () 3 2 2))
       \<longrightarrow> (\<forall>z. cell voxel_grid (2, 2, z) = (int z = hue_layer_of (fst (hsv_at cv () 3 2 2)) 16))
         \<and> cell colors (2, 2, nat (hue_layer_of (fst (hsv_at cv () 3 2 2)) 16))
             = interpolate cv () (nat 3) 2 2"
    by blast
  then have "(\<forall>z. cell voxel_grid (2, 2, z) = (int z = 8)) \<and> cell colors (2, 2, 8) = interpolate cv () (nat 3) 2 2"
    by (simp add: h l)
  then have "cell voxel_grid (2, 2, 8) \<and> \<not> cell voxel_grid (2, 2, 7) \<and> cell colors (2, 2, 8) = (30, 200, 200)"
    by (simp add: cv_def flat_cv_def)
  then show ?thesis unfolding cv_def[symmetric] by (simp add: r)
qed
section \<open>Claims about the structure-depth strategy\<close>

text \<open>
  Let \<open>D\<close> be a number of levels for which the \<^verbatim>\<open>float32\<close> value of \<open>D - 1\<close> does not exceed
  \<open>D - 1\<close>; that is every \<open>D \<le> 2^24 + 1\<close>, where \<open>D - 1\<close> is a \<^verbatim>\<open>float32\<close> value, and every larger
  \<open>D\<close> whose predecessor is rounded down. Then, for every image whose distance field is
  nonnegative on the sample and every resolution \<open>r > 0\<close>, the structure-depth strategy returns
  grids of shape \<open>(r, r, D)\<close>, and in every column \<open>(x, y)\<close> the occupied cells are exactly those
  with \<open>z \<le> depth_map(x, y)\<close>, where \<open>0 \<le> depth_map(x, y) \<le> D - 1\<close>; so every column has an
  occupied voxel at \<open>z = 0\<close>. When the maximum of the distance field is \<open>0\<close>, the depth map is
  zero and every column has exactly one occupied voxel, at \<open>z = 0\<close>.
\<close>

lemma structure_strategy_columns:
  assumes "0 < r" "0 < D" "f32 (of_int (D - 1)) \<le> of_int (D - 1)"
    and "\<forall>x<nat r. \<forall>y<nat r. 0 \<le> dist_at cv img r x y"
  shows "\<exists>voxel_grid colors.
           structure_based_voxels cv img r D = Inr (voxel_grid, colors)
         \<and> shape voxel_grid = (nat r, nat r, nat D)
         \<and> shape colors = (nat r, nat r, nat D)
         \<and> (\<forall>x<nat r. \<forall>y<nat r.
               0 \<le> depth_at cv img r D x y \<and> depth_at cv img r D x y \<le> D - 1
             \<and> (\<forall>z. cell voxel_grid (x, y, z) = (int z \<le> depth_at cv img r D x y))
             \<and> cell voxel_grid (x, y, 0)
             \<and> (max_dist_at cv img r = 0 \<longrightarrow>
                   depth_at cv img r D x y = 0 \<and> (\<forall>z. cell voxel_grid (x, y, z) = (z = 0))))"
proof -
  have D: "1 \<le> D" using assms(2) by simp
  have d: "\<And>x y. x < nat r \<Longrightarrow> y < nat r \<Longrightarrow> 0 \<le> dist_at cv img r x y" using assms(4) by blast
  have b: "0 \<le> depth_at cv img r D x y \<and> depth_at cv img r D x y \<le> D - 1"
    if "x < nat r" "y < nat r" for x y
    using depth_at_in_range[OF that d[OF that] D] assms(3) by simp
  have z: "max_dist_at cv img r = 0 \<Longrightarrow> depth_at cv img r D x y = 0" for x y
    by (simp add: depth_at_def)
  have res: "structure_based_voxels cv img r D
           = (if max_dist_at cv img r \<le> 0 \<or> f32 (of_int (D - 1)) \<le> of_int (D - 1)
              then Inr (painted (nat r, nat r, nat D)
                     {(x, y, z). x < nat r \<and> y < nat r \<and> int z \<le> depth_at cv img r D x y}
                     (\<lambda>(x, y, z). darken (interpolate cv img (nat r) y x) (color_intensity (int z) D)))
              else Inl IndexError)"
    using assms(1) D d by (rule structure_based_result)
  have e: "structure_based_voxels cv img r D
           = Inr (painted (nat r, nat r, nat D)
                   {(x, y, z). x < nat r \<and> y < nat r \<and> int z \<le> depth_at cv img r D x y}
                   (\<lambda>(x, y, z). darken (interpolate cv img (nat r) y x) (color_intensity (int z) D)))"
    using res assms(3) by simp
  show ?thesis
    unfolding e painted_def using b z by simp
qed

text \<open>
  For every other number of levels the \<^verbatim>\<open>float32\<close> value of \<open>D - 1\<close> is at least \<open>D\<close>, and the
  strategy fails on every image whose distance field is not zero: the pixel where the distance
  is largest gets that value as its depth.
\<close>

lemma structure_strategy_overflow:
  assumes "0 < r" "0 < D" "of_int (D - 1) < f32 (of_int (D - 1))"
    and "\<forall>x<nat r. \<forall>y<nat r. 0 \<le> dist_at cv img r x y"
    and "0 < max_dist_at cv img r"
  shows "structure_based_voxels cv img r D = Inl IndexError"
proof -
  have D: "1 \<le> D" using assms(2) by simp
  have d: "\<And>x y. x < nat r \<Longrightarrow> y < nat r \<Longrightarrow> 0 \<le> dist_at cv img r x y" using assms(4) by blast
  have res: "structure_based_voxels cv img r D
           = (if max_dist_at cv img r \<le> 0 \<or> f32 (of_int (D - 1)) \<le> of_int (D - 1)
              then Inr (painted (nat r, nat r, nat D)
                     {(x, y, z). x < nat r \<and> y < nat r \<and> int z \<le> depth_at cv img r D x y}
                     (\<lambda>(x, y, z). darken (interpolate cv img (nat r) y x) (color_intensity (int z) D)))
              else Inl IndexError)"
    using assms(1) D d by (rule structure_based_result)
  show ?thesis using res assms(3,5) by simp
qed

text \<open>
  An image without edges, where the distance is the same positive number at every pixel: with
  \<open>24\<close> levels every column is filled up to \<open>z = 23\<close>. With \<open>2^24 + 2\<close> levels the factor
  \<open>2^24 + 1\<close> is rounded down and grids are returned; with \<open>2^24 + 4\<close> levels the factor
  \<open>2^24 + 3\<close> is rounded up and the strategy fails, at any resolution.
\<close>

lemma structure_strategy_columns_flat_image:
  "depth_at (flat_cv (90, 90, 90) 90 (0, 0, 90) 1) () 3 24 2 2 = 23
   \<and> cell (fst (projr (structure_based_voxels (flat_cv (90, 90, 90) 90 (0, 0, 90) 1) () 3 24))) (2, 2, 0)
   \<and> cell (fst (projr (structure_based_voxels (flat_cv (90, 90, 90) 90 (0, 0, 90) 1) () 3 24))) (2, 2, 23)
   \<and> \<not> isl (structure_based_voxels (flat_cv (90, 90, 90) 90 (0, 0, 90) 1) () 3 16777218)
   \<and> structure_based_voxels (flat_cv (90, 90, 90) 90 (0, 0, 90) 1) () 3 16777220 = Inl IndexError"
proof -
  define cv where "cv = flat_cv (90, 90, 90) 90 (0, 0, 90) 1"
  have d: "dist_at cv () 3 x y = 1" for x y
    by (simp add: dist_at_def cv_def flat_cv_def)
  have m: "max_dist_at cv () 3 = 1"
    unfolding max_dist_at_def d by code_simp
  have dep: "depth_at cv () 3 24 2 2 = 23"
    unfolding depth_at_def max_dist_at_def d by code_simp
  have dd: "\<forall>x<nat 3. \<forall>y<nat 3. 0 \<le> dist_at cv () 3 x y" by (simp add: d)
  have f24: "f32 (of_int (24 - 1)) \<le> of_int (24 - 1)" by code_simp
  have fdown: "f32 (of_int (16777218 - 1)) \<le> of_int (16777218 - 1)" by code_simp
  have fup: "of_int (16777220 - 1) < f32 (of_int (16777220 - 1))" by code_simp
  from structure_strategy_columns[of 3 24 cv "()", OF _ _ f24 dd]
  obtain voxel_grid colors where
    r: "structure_based_voxels cv () 3 24 = Inr (voxel_grid, colors)"
    and c: "\<forall>x<nat 3. \<forall>y<nat 3. \<forall>z. cell voxel_grid (x, y, z) = (int z \<le> depth_at cv () 3 24 x y)"
    by auto
  have "(2::nat) < nat 3" by simp
  with c have "\<forall>z. cell voxel_grid (2, 2, z) = (int z \<le> depth_at cv () 3 24 2 2)" by blast
  then have a: "cell voxel_grid (2, 2, 0) \<and> cell voxel_grid (2, 2, 23)" by (simp add: dep)
  from structure_strategy_columns[of 3 16777218 cv "()", OF _ _ fdown dd]
  have b: "\<not> isl (structure_based_voxels cv () 3 16777218)" by auto
  have "structure_based_voxels cv () 3 16777220 = Inl IndexError"
    by (rule structure_strategy_overflow[OF _ _ fup dd]) (simp_all add: m)
  then show ?thesis unfolding cv_def[symmetric] using dep a b by (simp add: r)
qed

text \<open>
  C3 says that for every valid image and every positive \<open>D\<close> the strategy fills each column
  \<open>(x, y)\<close> for \<open>z\<close> in \<open>[0, depth_map(x, y)]\<close>. The code multiplies the normalised distance by
  \<open>depth_levels - 1\<close> so that the depth stays below \<open>depth_levels\<close>, but the product is taken
  in \<^verbatim>\<open>float32\<close>: for \<open>depth_levels = 16777220\<close> the factor \<open>16777219\<close> is not a \<^verbatim>\<open>float32\<close> value and
  rounds up to \<open>16777220\<close>. At the pixel where the distance is largest the quotient is \<open>1\<close>, so
  the depth is \<open>depth_levels\<close> itself, the loop writes at \<open>z = depth_levels\<close>, and the strategy
  ends with \<^verbatim>\<open>IndexError\<close> instead of returning grids.
\<close>

theorem structure_strategy_index_error:
  "0 \<le> dist_at (flat_cv (90, 90, 90) 90 (0, 0, 90) 1) () 1 0 0
   \<and> structure_based_voxels (flat_cv (90, 90, 90) 90 (0, 0, 90) 1) () 1 16777220 = Inl IndexError"
proof -
  have "depth_at (flat_cv (90, 90, 90) 90 (0, 0, 90) 1) () 1 16777220 0 0 = 16777220"
    by code_simp
  then have "structure_based_voxels (flat_cv (90, 90, 90) 90 (0, 0, 90) 1) () 1 16777220 = Inl IndexError"
    by (intro structure_based_index_error) simp_all
  then show ?thesis by (simp add: dist_at_def flat_cv_def)
qed

text \<open>
  C7 (as amended). For every occupied voxel \<open>(x, y, z)\<close> produced by the structure-depth
  strategy with base pixel colour \<open>c\<close>, the stored colour is, per channel, the double-precision
  product \<^verbatim>\<open>c * (1.0 - (z / max(D, 1)) * 0.5)\<close> truncated toward zero by the conversion to
  \<^verbatim>\<open>uint8\<close> (\<open>darken\<close>); it is not rounded to nearest.
\<close>

theorem structure_strategy_darkened_color:
  assumes "structure_based_voxels cv img r D = Inr (voxel_grid, colors)"
    and "cell voxel_grid (x, y, z)"
  shows "cell colors (x, y, z)
           = darken (interpolate cv img (nat r) y x) (color_intensity (int z) D)"
  using is_painted_cells(4)[OF structure_based_is_painted[OF assms(1)] assms(2)] by simp

text \<open>
  C7 as stated rounds to nearest. For a white pixel, \<open>z = 1\<close> and \<open>D = 24\<close> the product is
  \<open>249.6875\<close>: rounding gives \<open>250\<close>, the code stores \<open>249\<close>.
\<close>

theorem structure_strategy_round_counterexample:
  "interpolate (flat_cv (255, 255, 255) 255 (0, 0, 255) 1) () 1 0 0 = (255, 255, 255)
   \<and> round ((255 :: rat) * (1 - (1 / 24) * (1 / 2))) = 250
   \<and> \<not> isl (structure_based_voxels (flat_cv (255, 255, 255) 255 (0, 0, 255) 1) () 1 24)
   \<and> cell (fst (projr (structure_based_voxels (flat_cv (255, 255, 255) 255 (0, 0, 255) 1) () 1 24)))
        (0, 0, 1)
   \<and> cell (snd (projr (structure_based_voxels (flat_cv (255, 255, 255) 255 (0, 0, 255) 1) () 1 24)))
        (0, 0, 1) = (249, 249, 249)"
proof -
  define cv where "cv = flat_cv (255, 255, 255) 255 (0, 0, 255) 1"
  have i: "interpolate cv () 1 0 0 = (255, 255, 255)" by (simp add: cv_def flat_cv_def)
  have d: "dist_at cv () 1 x y = 1" for x y by (simp add: dist_at_def cv_def flat_cv_def)
  have dep: "depth_at cv () 1 24 0 0 = 23" unfolding depth_at_def max_dist_at_def d by code_simp
  have dk: "darken (255, 255, 255) (color_intensity 1 24) = (249, 249, 249)"
    by (rule darken_white_1_24)
  have rd: "round ((255 :: rat) * (1 - (1 / 24) * (1 / 2))) = 250" by code_simp
  have e: "structure_based_voxels cv () 1 24
           = Inr (painted (nat 1, nat 1, nat 24)
                   {(x, y, z). x < nat 1 \<and> y < nat 1 \<and> int z \<le> depth_at cv () 1 24 x y}
                   (\<lambda>(x, y, z). darken (interpolate cv () (nat 1) y x) (color_intensity (int z) 24)))"
    by (rule structure_based_painted) (simp_all add: d)
  show ?thesis
    unfolding cv_def[symmetric] e painted_def using i dep dk rd by simp
qed

text \<open>
  An orange pixel at \<open>z = 2\<close> of \<open>24\<close> levels.
\<close>

theorem structure_strategy_darkened_color_witness:
  "darken (interpolate (flat_cv (200, 100, 50) 124 (10, 191, 200) 1) () (nat 1) 0 0) (color_intensity (int 2) 24)
     = (191, 95, 47)
   \<and> cell (snd (projr (structure_based_voxels (flat_cv (200, 100, 50) 124 (10, 191, 200) 1) () 1 24))) (0, 0, 2)
     = (191, 95, 47)"
proof -
  define cv where "cv = flat_cv (200, 100, 50) 124 (10, 191, 200) 1"
  have d: "dist_at cv () 1 x y = 1" for x y by (simp add: dist_at_def cv_def flat_cv_def)
  have dep: "depth_at cv () 1 24 0 0 = 23" unfolding depth_at_def max_dist_at_def d by code_simp
  have dk: "darken (interpolate cv () (nat 1) 0 0) (color_intensity (int 2) 24) = (191, 95, 47)"
    using darken_orange_2_24 by (simp add: cv_def flat_cv_def)
  have e: "structure_based_voxels cv () 1 24
           = Inr (painted (nat 1, nat 1, nat 24)
                   {(x, y, z). x < nat 1 \<and> y < nat 1 \<and> int z \<le> depth_at cv () 1 24 x y}
                   (\<lambda>(x, y, z). darken (interpolate cv () (nat 1) y x) (color_intensity (int z) 24)))"
    by (rule structure_based_painted) (simp_all add: d)
  define voxel_grid where "voxel_grid = fst (projr (structure_based_voxels cv () 1 24))"
  define colors where "colors = snd (projr (structure_based_voxels cv () 1 24))"
  have r: "structure_based_voxels cv () 1 24 = Inr (voxel_grid, colors)"
    by (simp add: voxel_grid_def colors_def e)
  have o: "cell voxel_grid (0, 0, 2)"
    by (simp add: voxel_grid_def e painted_def dep)
  from structure_strategy_darkened_color[OF r o]
  have "cell colors (0, 0, 2) = darken (interpolate cv () (nat 1) 0 0) (color_intensity (int 2) 24)" .
  then show ?thesis unfolding cv_def[symmetric] colors_def[symmetric] using dk by simp
qed

section \<open>Claims about all three strategies\<close>

text \<open>
  C9. In the output of every strategy, the colour-grid cell of every unoccupied voxel is
  \<open>(0, 0, 0)\<close>: the colour array starts as zeros, and a colour is written only together with
  the occupancy flag of the same cell.
\<close>

theorem unoccupied_cells_black:
  assumes "height_based_voxels cv img r h = Inr (voxel_grid, colors)
         \<or> color_layered_voxels cv img r L = Inr (voxel_grid, colors)
         \<or> structure_based_voxels cv img r D = Inr (voxel_grid, colors)"
    and "\<not> cell voxel_grid c"
  shows "cell colors c = (0, 0, 0)"
  using assms(1)
proof (elim disjE)
  assume "height_based_voxels cv img r h = Inr (voxel_grid, colors)"
  then show ?thesis
    by (rule is_painted_cells(5)[OF height_based_is_painted assms(2)])
next
  assume "color_layered_voxels cv img r L = Inr (voxel_grid, colors)"
  then show ?thesis
    by (rule is_painted_cells(5)[OF color_layered_is_painted assms(2)])
next
  assume "structure_based_voxels cv img r D = Inr (voxel_grid, colors)"
  then show ?thesis
    by (rule is_painted_cells(5)[OF structure_based_is_painted assms(2)])
qed

text \<open>
  Above a column of height \<open>4\<close> the colour grid is still black.
\<close>

theorem unoccupied_cells_black_witness:
  "\<not> cell (fst (projr (height_based_voxels (flat_cv (128, 128, 128) 128 (0, 0, 128) 0) () 4 8))) (2, 3, 5)
   \<and> cell (snd (projr (height_based_voxels (flat_cv (128, 128, 128) 128 (0, 0, 128) 0) () 4 8))) (2, 3, 5)
       = (0, 0, 0)"
proof -
  define cv where "cv = flat_cv (128, 128, 128) 128 (0, 0, 128) 0"
  have h: "height_at cv () 4 8 2 3 = 4" unfolding cv_def by code_simp
  have e: "height_based_voxels cv () 4 8
           = Inr (painted (nat 4, nat 4, nat 8)
                   {(x, y, z). x < nat 4 \<and> y < nat 4 \<and> int z < height_at cv () 4 8 x y}
                   (\<lambda>(x, y, z). interpolate cv () (nat 4) y x))"
    by (rule height_based_painted) simp_all
  define voxel_grid where "voxel_grid = fst (projr (height_based_voxels cv () 4 8))"
  define colors where "colors = snd (projr (height_based_voxels cv () 4 8))"
  have r: "height_based_voxels cv () 4 8 = Inr (voxel_grid, colors)"
    by (simp add: voxel_grid_def colors_def e)
  have o: "\<not> cell voxel_grid (2, 3, 5)"
    by (simp add: voxel_grid_def e painted_def h)
  have "height_based_voxels cv () 4 8 = Inr (voxel_grid, colors)
         \<or> color_layered_voxels cv () 4 16 = Inr (voxel_grid, colors)
         \<or> structure_based_voxels cv () 4 24 = Inr (voxel_grid, colors)"
    using r by simp
  from unoccupied_cells_black[OF this o]
  have "cell colors (2, 3, 5) = (0, 0, 0)" .
  then show ?thesis
    unfolding cv_def[symmetric] colors_def[symmetric] voxel_grid_def[symmetric] using o by simp
qed

text \<open>
  Where the float value of the depth parameter does not exceed it, every write is in bounds.
  For every image whose distance field is nonnegative on the sample, every resolution \<open>r > 0\<close>,
  every \<open>max_height\<close> \<open>h\<close> with \<open>0 < h \<le> 2^53\<close>, every layer count \<open>L > 0\<close> and every
  \<open>depth_levels\<close> \<open>D > 0\<close> for which the \<^verbatim>\<open>float32\<close> value of \<open>D - 1\<close> is at most \<open>D - 1\<close> (every
  \<open>D \<le> 2^24 + 1\<close> among them), each of the three strategies returns its grids: the height lies
  in \<open>[0, h]\<close> and the exclusive loop stays below \<open>h\<close>, the hue layer lies in \<open>[0, L - 1]\<close>, and
  the depth lies in \<open>[0, D - 1]\<close> so the inclusive loop stays below \<open>D\<close>.
\<close>

lemma strategy_writes_in_bounds:
  assumes "0 < r" "0 < h" "h \<le> 2 ^ 53" "0 < L" "0 < D"
    and "f32 (of_int (D - 1)) \<le> of_int (D - 1)"
    and "\<forall>x<nat r. \<forall>y<nat r. 0 \<le> dist_at cv img r x y"
  shows "(\<exists>s. height_based_voxels cv img r h = Inr s)
       \<and> (\<exists>s. color_layered_voxels cv img r L = Inr s)
       \<and> (\<exists>s. structure_based_voxels cv img r D = Inr s)
       \<and> (\<forall>x<nat r. \<forall>y<nat r.
             0 \<le> height_at cv img r h x y \<and> height_at cv img r h x y \<le> h
           \<and> 0 \<le> hue_layer_of (fst (hsv_at cv img r x y)) L
           \<and> hue_layer_of (fst (hsv_at cv img r x y)) L \<le> L - 1
           \<and> 0 \<le> depth_at cv img r D x y \<and> depth_at cv img r D x y \<le> D - 1)"
proof (intro conjI)
  have h0: "0 \<le> h" and L1: "1 \<le> L" and D1: "1 \<le> D" using assms(2,4,5) by simp_all
  have d: "\<And>x y. x < nat r \<Longrightarrow> y < nat r \<Longrightarrow> 0 \<le> dist_at cv img r x y" using assms(7) by blast
  show "\<exists>s. height_based_voxels cv img r h = Inr s"
    by (rule exI) (rule height_based_painted[OF assms(1) h0 assms(3)])
  show "\<exists>s. color_layered_voxels cv img r L = Inr s"
    by (rule exI) (rule color_layered_painted[OF assms(1) L1])
  have res: "structure_based_voxels cv img r D
           = (if max_dist_at cv img r \<le> 0 \<or> f32 (of_int (D - 1)) \<le> of_int (D - 1)
              then Inr (painted (nat r, nat r, nat D)
                     {(x, y, z). x < nat r \<and> y < nat r \<and> int z \<le> depth_at cv img r D x y}
                     (\<lambda>(x, y, z). darken (interpolate cv img (nat r) y x) (color_intensity (int z) D)))
              else Inl IndexError)"
    using assms(1) D1 d by (rule structure_based_result)
  show "\<exists>s. structure_based_voxels cv img r D = Inr s"
    using res assms(6) by simp
  show "\<forall>x<nat r. \<forall>y<nat r.
             0 \<le> height_at cv img r h x y \<and> height_at cv img r h x y \<le> h
           \<and> 0 \<le> hue_layer_of (fst (hsv_at cv img r x y)) L
           \<and> hue_layer_of (fst (hsv_at cv img r x y)) L \<le> L - 1
           \<and> 0 \<le> depth_at cv img r D x y \<and> depth_at cv img r D x y \<le> D - 1"
  proof (intro allI impI)
    fix x y assume xy: "x < nat r" "y < nat r"
    have "0 \<le> height_at cv img r h x y \<and> height_at cv img r h x y \<le> h"
      unfolding height_at_def using heights_of_bounds[OF h0 assms(3)] by blast
    moreover have "0 \<le> hue_layer_of (fst (hsv_at cv img r x y)) L
                 \<and> hue_layer_of (fst (hsv_at cv img r x y)) L \<le> L - 1"
      using hue_layer_of_bounds[OF L1, of "fst (hsv_at cv img r x y)"] by simp
    moreover have "0 \<le> depth_at cv img r D x y \<and> depth_at cv img r D x y \<le> D - 1"
      using depth_at_in_range[OF xy d[OF xy] D1] assms(6) by simp
    ultimately show "0 \<le> height_at cv img r h x y \<and> height_at cv img r h x y \<le> h
           \<and> 0 \<le> hue_layer_of (fst (hsv_at cv img r x y)) L
           \<and> hue_layer_of (fst (hsv_at cv img r x y)) L \<le> L - 1
           \<and> 0 \<le> depth_at cv img r D x y \<and> depth_at cv img r D x y \<le> D - 1"
      by blast
  qed
qed

text \<open>
  A saturated cyan image at small sizes: height \<open>4\<close> of \<open>8\<close>, layer \<open>8\<close> of \<open>16\<close>, where the
  pixel is saturated and bright enough to be written, and depth \<open>23\<close> of \<open>24\<close>.
\<close>

lemma strategy_writes_in_bounds_cyan_image:
  "\<not> isl (height_based_voxels (flat_cv (30, 200, 200) 149 (90, 217, 200) 1) () 2 8)
   \<and> \<not> isl (color_layered_voxels (flat_cv (30, 200, 200) 149 (90, 217, 200) 1) () 2 16)
   \<and> \<not> isl (structure_based_voxels (flat_cv (30, 200, 200) 149 (90, 217, 200) 1) () 2 24)
   \<and> height_at (flat_cv (30, 200, 200) 149 (90, 217, 200) 1) () 2 8 0 0 = 4
   \<and> hue_layer_of (fst (hsv_at (flat_cv (30, 200, 200) 149 (90, 217, 200) 1) () 2 0 0)) 16 = 8
   \<and> depth_at (flat_cv (30, 200, 200) 149 (90, 217, 200) 1) () 2 24 0 0 = 23"
proof -
  define cv where "cv = flat_cv (30, 200, 200) 149 (90, 217, 200) 1"
  have d: "dist_at cv () 2 x y = 1" for x y by (simp add: dist_at_def cv_def flat_cv_def)
  have dd: "\<forall>x<nat 2. \<forall>y<nat 2. 0 \<le> dist_at cv () 2 x y" by (simp add: d)
  have v: "height_at cv () 2 8 0 0 = 4"
    "hue_layer_of (fst (hsv_at cv () 2 0 0)) 16 = 8"
    "depth_at cv () 2 24 0 0 = 23"
    unfolding cv_def by code_simp+
  have f: "f32 (of_int (24 - 1)) \<le> of_int (24 - 1)" by code_simp
  from strategy_writes_in_bounds[of 2 8 16 24 cv "()", OF _ _ _ _ _ f dd]
  have "(\<exists>s. height_based_voxels cv () 2 8 = Inr s)
       \<and> (\<exists>s. color_layered_voxels cv () 2 16 = Inr s)
       \<and> (\<exists>s. structure_based_voxels cv () 2 24 = Inr s)"
    by simp
  then have "\<not> isl (height_based_voxels cv () 2 8)
       \<and> \<not> isl (color_layered_voxels cv () 2 16)
       \<and> \<not> isl (structure_based_voxels cv () 2 24)"
    by auto
  then show ?thesis unfolding cv_def[symmetric] using v by simp
qed

text \<open>
  C10 says that for every valid image and positive parameters every write of the three
  strategies is in bounds, the depth never exceeding \<open>D - 1\<close>. The structure-depth strategy
  scales by \<open>depth_levels - 1\<close> to that end, but in \<^verbatim>\<open>float32\<close>: with \<open>D = 16777220\<close> the
  \<^verbatim>\<open>float32\<close> value of \<open>D - 1\<close> is \<open>D\<close>, the depth at the pixel of largest distance is \<open>D\<close>, which
  exceeds \<open>D - 1\<close>, and the write at \<open>z = D\<close> is out of bounds and raises \<^verbatim>\<open>IndexError\<close>.
\<close>

theorem depth_exceeds_levels:
  "0 < max_dist_at (flat_cv (10, 20, 30) 18 (105, 170, 30) 3) () 1
   \<and> depth_at (flat_cv (10, 20, 30) 18 (105, 170, 30) 3) () 1 16777220 0 0 = 16777220
   \<and> \<not> (16777220 :: int) \<le> 16777220 - 1
   \<and> structure_based_voxels (flat_cv (10, 20, 30) 18 (105, 170, 30) 3) () 1 16777220 = Inl IndexError"
proof -
  have m: "max_dist_at (flat_cv (10, 20, 30) 18 (105, 170, 30) 3) () 1 = 3"
    by code_simp
  have d: "depth_at (flat_cv (10, 20, 30) 18 (105, 170, 30) 3) () 1 16777220 0 0 = 16777220"
    by code_simp
  then have "structure_based_voxels (flat_cv (10, 20, 30) 18 (105, 170, 30) 3) () 1 16777220 = Inl IndexError"
    by (intro structure_based_index_error) simp_all
  then show ?thesis using m d by simp
qed

section \<open>Claims about parameters, the encoder and the orchestrator\<close>

text \<open>
  With a resolution \<open>r \<le> 0\<close> every strategy fails with \<^verbatim>\<open>InvalidResolution\<close>; the failure comes
  from the resize, the first step of the strategy, whatever the other parameter is (even a
  negative depth, which the allocation that follows would reject). With \<open>r = 1\<close> the strategy
  returns grids of shape \<open>(1, 1, depth)\<close>, a single column: the height strategy when
  \<open>0 < h \<le> 2^53\<close>, the hue-layer strategy when \<open>0 < L\<close>, the structure-depth strategy when
  \<open>0 < D\<close>, the \<^verbatim>\<open>float32\<close> value of \<open>D - 1\<close> is at most \<open>D - 1\<close> and the distance of the pixel is
  not negative.
\<close>

lemma resolution_validation:
  "(r \<le> 0 \<longrightarrow>
      height_based_voxels cv img r h = Inl InvalidResolution
    \<and> color_layered_voxels cv img r L = Inl InvalidResolution
    \<and> structure_based_voxels cv img r D = Inl InvalidResolution)
   \<and> (0 < h \<and> h \<le> 2 ^ 53 \<longrightarrow>
        (\<exists>voxel_grid colors. height_based_voxels cv img 1 h = Inr (voxel_grid, colors)
           \<and> shape voxel_grid = (1, 1, nat h) \<and> shape colors = (1, 1, nat h)))
   \<and> (0 < L \<longrightarrow>
        (\<exists>voxel_grid colors. color_layered_voxels cv img 1 L = Inr (voxel_grid, colors)
           \<and> shape voxel_grid = (1, 1, nat L) \<and> shape colors = (1, 1, nat L)))
   \<and> (0 < D \<and> f32 (of_int (D - 1)) \<le> of_int (D - 1) \<and> 0 \<le> dist_at cv img 1 0 0 \<longrightarrow>
        (\<exists>voxel_grid colors. structure_based_voxels cv img 1 D = Inr (voxel_grid, colors)
           \<and> shape voxel_grid = (1, 1, nat D) \<and> shape colors = (1, 1, nat D)))"
proof (intro conjI impI)
  assume "r \<le> 0"
  then show "height_based_voxels cv img r h = Inl InvalidResolution"
    "color_layered_voxels cv img r L = Inl InvalidResolution"
    "structure_based_voxels cv img r D = Inl InvalidResolution"
    by (rule nonpositive_resolution)+
next
  assume a: "0 < h \<and> h \<le> 2 ^ 53"
  have "height_based_voxels cv img 1 h
           = Inr (painted (nat 1, nat 1, nat h)
                   {(x, y, z). x < nat 1 \<and> y < nat 1 \<and> int z < height_at cv img 1 h x y}
                   (\<lambda>(x, y, z). interpolate cv img (nat 1) y x))"
    by (rule height_based_painted) (use a in simp_all)
  then show "\<exists>voxel_grid colors. height_based_voxels cv img 1 h = Inr (voxel_grid, colors)
           \<and> shape voxel_grid = (1, 1, nat h) \<and> shape colors = (1, 1, nat h)"
    by (simp add: painted_def)
next
  assume a: "0 < L"
  have "color_layered_voxels cv img 1 L
           = Inr (painted (nat 1, nat 1, nat L)
                   {(x, y, z). x < nat 1 \<and> y < nat 1
                      \<and> 30 < fst (snd (hsv_at cv img 1 x y)) \<and> 30 < snd (snd (hsv_at cv img 1 x y))
                      \<and> int z = hue_layer_of (fst (hsv_at cv img 1 x y)) L}
                   (\<lambda>(x, y, z). interpolate cv img (nat 1) y x))"
    by (rule color_layered_painted) (use a in simp_all)
  then show "\<exists>voxel_grid colors. color_layered_voxels cv img 1 L = Inr (voxel_grid, colors)
           \<and> shape voxel_grid = (1, 1, nat L) \<and> shape colors = (1, 1, nat L)"
    by (simp add: painted_def)
next
  assume a: "0 < D \<and> f32 (of_int (D - 1)) \<le> of_int (D - 1) \<and> 0 \<le> dist_at cv img 1 0 0"
  have "structure_based_voxels cv img 1 D
           = (if max_dist_at cv img 1 \<le> 0 \<or> f32 (of_int (D - 1)) \<le> of_int (D - 1)
              then Inr (painted (nat 1, nat 1, nat D)
                     {(x, y, z). x < nat 1 \<and> y < nat 1 \<and> int z \<le> depth_at cv img 1 D x y}
                     (\<lambda>(x, y, z). darken (interpolate cv img (nat 1) y x) (color_intensity (int z) D)))
              else Inl IndexError)"
    by (rule structure_based_result) (use a in simp_all)
  then have "structure_based_voxels cv img 1 D
           = Inr (painted (nat 1, nat 1, nat D)
                   {(x, y, z). x < nat 1 \<and> y < nat 1 \<and> int z \<le> depth_at cv img 1 D x y}
                   (\<lambda>(x, y, z). darken (interpolate cv img (nat 1) y x) (color_intensity (int z) D)))"
    using a by simp
  then show "\<exists>voxel_grid colors. structure_based_voxels cv img 1 D = Inr (voxel_grid, colors)
           \<and> shape voxel_grid = (1, 1, nat D) \<and> shape colors = (1, 1, nat D)"
    by (simp add: painted_def)
qed

text \<open>
  Resolution \<open>0\<close> and resolution \<open>1\<close> with the default depths \<open>32\<close>, \<open>16\<close> and \<open>24\<close>.
\<close>

lemma resolution_validation_defaults:
  "height_based_voxels (flat_cv (128, 128, 128) 128 (0, 0, 128) 2) () 0 32 = Inl InvalidResolution
   \<and> color_layered_voxels (flat_cv (128, 128, 128) 128 (0, 0, 128) 2) () 0 16 = Inl InvalidResolution
   \<and> structure_based_voxels (flat_cv (128, 128, 128) 128 (0, 0, 128) 2) () 0 24 = Inl InvalidResolution
   \<and> shape (fst (projr (height_based_voxels (flat_cv (128, 128, 128) 128 (0, 0, 128) 2) () 1 32)))
       = (1, 1, 32)
   \<and> shape (fst (projr (color_layered_voxels (flat_cv (128, 128, 128) 128 (0, 0, 128) 2) () 1 16)))
       = (1, 1, 16)
   \<and> shape (fst (projr (structure_based_voxels (flat_cv (128, 128, 128) 128 (0, 0, 128) 2) () 1 24)))
       = (1, 1, 24)"
proof -
  define cv where "cv = flat_cv (128, 128, 128) 128 (0, 0, 128) 2"
  have d: "0 \<le> dist_at cv () 1 0 0" by (simp add: dist_at_def cv_def flat_cv_def)
  have f: "f32 (of_int (24 - 1)) \<le> of_int (24 - 1)" by code_simp
  have "(0::int) \<le> 0" "(0::int) < 32 \<and> (32::int) \<le> 2 ^ 53" "(0::int) < 16"
    "(0::int) < 24 \<and> f32 (of_int (24 - 1)) \<le> of_int (24 - 1) \<and> 0 \<le> dist_at cv () 1 0 0"
    using d f by simp_all
  with resolution_validation[of 0 cv "()" 32 16 24]
  have "height_based_voxels cv () 0 32 = Inl InvalidResolution
    \<and> color_layered_voxels cv () 0 16 = Inl InvalidResolution
    \<and> structure_based_voxels cv () 0 24 = Inl InvalidResolution"
    and "\<exists>voxel_grid colors. height_based_voxels cv () 1 32 = Inr (voxel_grid, colors)
           \<and> shape voxel_grid = (1, 1, nat 32) \<and> shape colors = (1, 1, nat 32)"
    and "\<exists>voxel_grid colors. color_layered_voxels cv () 1 16 = Inr (voxel_grid, colors)
           \<and> shape voxel_grid = (1, 1, nat 16) \<and> shape colors = (1, 1, nat 16)"
    and "\<exists>voxel_grid colors. structure_based_voxels cv () 1 24 = Inr (voxel_grid, colors)
           \<and> shape voxel_grid = (1, 1, nat 24) \<and> shape colors = (1, 1, nat 24)"
    by blast+
  then show ?thesis unfolding cv_def[symmetric] by auto
qed

text \<open>
  C6 says that a resolution \<open>R \<le> 0\<close> is rejected and that with \<open>R = 1\<close> an invocation succeeds and
  produces a single-column grid. With resolution \<open>1\<close> and \<open>16777220\<close> levels the height strategy
  and the hue-layer strategy do return grids of shape \<open>(1, 1, 16777220)\<close>, but the
  structure-depth strategy fails with \<^verbatim>\<open>IndexError\<close>: the single pixel is the pixel of largest
  distance, its depth is the \<^verbatim>\<open>float32\<close> value of \<open>16777219\<close>, which is \<open>16777220\<close>, and the loop
  writes one cell past the end of the column.
\<close>

theorem resolution_one_index_error:
  "\<not> isl (height_based_voxels (flat_cv (128, 128, 128) 128 (0, 0, 128) 2) () 1 16777220)
   \<and> shape (fst (projr (height_based_voxels (flat_cv (128, 128, 128) 128 (0, 0, 128) 2) () 1 16777220)))
       = (1, 1, 16777220)
   \<and> \<not> isl (color_layered_voxels (flat_cv (128, 128, 128) 128 (0, 0, 128) 2) () 1 16777220)
   \<and> shape (fst (projr (color_layered_voxels (flat_cv (128, 128, 128) 128 (0, 0, 128) 2) () 1 16777220)))
       = (1, 1, 16777220)
   \<and> structure_based_voxels (flat_cv (128, 128, 128) 128 (0, 0, 128) 2) () 1 16777220
       = Inl IndexError"
proof -
  define cv where "cv = flat_cv (128, 128, 128) 128 (0, 0, 128) 2"
  have h: "height_based_voxels cv () 1 16777220
           = Inr (painted (nat 1, nat 1, nat 16777220)
                   {(x, y, z). x < nat 1 \<and> y < nat 1 \<and> int z < height_at cv () 1 16777220 x y}
                   (\<lambda>(x, y, z). interpolate cv () (nat 1) y x))"
    by (rule height_based_painted) simp_all
  have c: "color_layered_voxels cv () 1 16777220
           = Inr (painted (nat 1, nat 1, nat 16777220)
                   {(x, y, z). x < nat 1 \<and> y < nat 1
                      \<and> 30 < fst (snd (hsv_at cv () 1 x y)) \<and> 30 < snd (snd (hsv_at cv () 1 x y))
                      \<and> int z = hue_layer_of (fst (hsv_at cv () 1 x y)) 16777220}
                   (\<lambda>(x, y, z). interpolate cv () (nat 1) y x))"
    by (rule color_layered_painted) simp_all
  have "depth_at cv () 1 16777220 0 0 = 16777220"
    unfolding cv_def by code_simp
  then have s: "structure_based_voxels cv () 1 16777220 = Inl IndexError"
    by (intro structure_based_index_error) simp_all
  show ?thesis
    unfolding cv_def[symmetric] h c s by (simp add: painted_def)
qed

text \<open>
  A strategy reads the arrays of the image library only inside the \<open>r\<close> by \<open>r\<close> sample. Two images
  and libraries that give the same sample colours, grey values, HSV values and distances give
  the same result of each strategy, the same grids or the same failure.
\<close>

lemma strategies_read_sample_only:
  assumes "\<forall>x<nat r. \<forall>y<nat r.
             interpolate cv img (nat r) y x = interpolate cv' img' (nat r) y x
           \<and> rgb2gray cv (nat r) (interpolate cv img (nat r)) y x
               = rgb2gray cv' (nat r) (interpolate cv' img' (nat r)) y x
           \<and> hsv_at cv img r x y = hsv_at cv' img' r x y
           \<and> dist_at cv img r x y = dist_at cv' img' r x y"
  shows "height_based_voxels cv img r h = height_based_voxels cv' img' r h
       \<and> color_layered_voxels cv img r L = color_layered_voxels cv' img' r L
       \<and> structure_based_voxels cv img r D = structure_based_voxels cv' img' r D"
proof (cases "0 < r")
  case False
  then have "r \<le> 0" by simp
  then show ?thesis by (simp add: nonpositive_resolution)
next
  case True
  have i: "interpolate cv img (nat r) y x = interpolate cv' img' (nat r) y x"
    and g: "rgb2gray cv (nat r) (interpolate cv img (nat r)) y x
               = rgb2gray cv' (nat r) (interpolate cv' img' (nat r)) y x"
    and v: "hsv_at cv img r x y = hsv_at cv' img' r x y"
    and d: "dist_at cv img r x y = dist_at cv' img' r x y"
    if "x < nat r" "y < nat r" for x y
    using assms that by blast+
  have m: "max_dist_at cv img r = max_dist_at cv' img' r"
    using True d by (rule max_dist_at_cong)
  have dep: "depth_at cv img r D x y = depth_at cv' img' r D x y" if "x < nat r" "y < nat r" for x y
    by (simp add: depth_at_def m d[OF that])
  have hb: "height_y_body (interpolate cv img (nat r))
              (\<lambda>y x. heights_of (rgb2gray cv (nat r) (interpolate cv img (nat r)) y x) h) (int x) (int y) s
          = height_y_body (interpolate cv' img' (nat r))
              (\<lambda>y x. heights_of (rgb2gray cv' (nat r) (interpolate cv' img' (nat r)) y x) h) (int x) (int y) s"
    if "x < nat r" "y < nat r" for x y s
    unfolding height_y_body_def nat_int i[OF that] g[OF that] ..
  have cb: "color_y_body (interpolate cv img (nat r)) (rgb2hsv cv (nat r) (interpolate cv img (nat r))) L
              (int x) (int y) s
          = color_y_body (interpolate cv' img' (nat r)) (rgb2hsv cv' (nat r) (interpolate cv' img' (nat r))) L
              (int x) (int y) s"
    if "x < nat r" "y < nat r" for x y s
    unfolding color_y_body_def nat_int i[OF that] v[OF that, unfolded hsv_at_def] ..
  have sb: "structure_y_body (interpolate cv img (nat r)) (\<lambda>y x. depth_at cv img r D x y) D (int x) (int y) s
          = structure_y_body (interpolate cv' img' (nat r)) (\<lambda>y x. depth_at cv' img' r D x y) D
              (int x) (int y) s"
    if "x < nat r" "y < nat r" for x y s
    unfolding structure_y_body_def nat_int i[OF that] dep[OF that] ..
  have l1: "for_each (py_range r) (\<lambda>x. for_each (py_range r)
               (height_y_body (interpolate cv img (nat r))
                  (\<lambda>y x. heights_of (rgb2gray cv (nat r) (interpolate cv img (nat r)) y x) h) x)) s
          = for_each (py_range r) (\<lambda>x. for_each (py_range r)
               (height_y_body (interpolate cv' img' (nat r))
                  (\<lambda>y x. heights_of (rgb2gray cv' (nat r) (interpolate cv' img' (nat r)) y x) h) x)) s"
    for s
    by (rule for_xy_cong[where
          f="height_y_body (interpolate cv img (nat r))
               (\<lambda>y x. heights_of (rgb2gray cv (nat r) (interpolate cv img (nat r)) y x) h)"
          and g="height_y_body (interpolate cv' img' (nat r))
               (\<lambda>y x. heights_of (rgb2gray cv' (nat r) (interpolate cv' img' (nat r)) y x) h)"])
       (rule hb)
  have l2: "for_each (py_range r) (\<lambda>x. for_each (py_range r)
               (color_y_body (interpolate cv img (nat r))
                  (rgb2hsv cv (nat r) (interpolate cv img (nat r))) L x)) s
          = for_each (py_range r) (\<lambda>x. for_each (py_range r)
               (color_y_body (interpolate cv' img' (nat r))
                  (rgb2hsv cv' (nat r) (interpolate cv' img' (nat r))) L x)) s"
    for s
    by (rule for_xy_cong[where
          f="color_y_body (interpolate cv img (nat r)) (rgb2hsv cv (nat r) (interpolate cv img (nat r))) L"
          and g="color_y_body (interpolate cv' img' (nat r))
                   (rgb2hsv cv' (nat r) (interpolate cv' img' (nat r))) L"])
       (rule cb)
  have l3: "for_each (py_range r) (\<lambda>x. for_each (py_range r)
               (structure_y_body (interpolate cv img (nat r)) (\<lambda>y x. depth_at cv img r D x y) D x)) s
          = for_each (py_range r) (\<lambda>x. for_each (py_range r)
               (structure_y_body (interpolate cv' img' (nat r)) (\<lambda>y x. depth_at cv' img' r D x y) D x)) s"
    for s
    by (rule for_xy_cong[where
          f="structure_y_body (interpolate cv img (nat r)) (\<lambda>y x. depth_at cv img r D x y) D"
          and g="structure_y_body (interpolate cv' img' (nat r)) (\<lambda>y x. depth_at cv' img' r D x y) D"])
       (rule sb)
  have 1: "height_based_voxels cv img r h = height_based_voxels cv' img' r h"
    using True unfolding height_based_voxels_def cv2_resize_def Let_def
    by (simp add: l1[abs_def])
  have 2: "color_layered_voxels cv img r L = color_layered_voxels cv' img' r L"
    using True unfolding color_layered_voxels_def cv2_resize_def Let_def
    by (simp add: l2[abs_def])
  have 3: "structure_based_voxels cv img r D = structure_based_voxels cv' img' r D"
    unfolding structure_based_unfold[OF True]
    by (simp add: l3[abs_def])
  show ?thesis using 1 2 3 by simp
qed

text \<open>
  Two libraries that agree on a \<open>2\<close> by \<open>2\<close> sample and differ outside it.
\<close>

lemma strategies_read_sample_only_cropped:
  "height_based_voxels (flat_cv (30, 200, 200) 149 (90, 217, 200) 1) () 2 8
     = height_based_voxels (cropped_cv 2 (30, 200, 200) 149 (90, 217, 200) 1) () 2 8
   \<and> color_layered_voxels (flat_cv (30, 200, 200) 149 (90, 217, 200) 1) () 2 16
     = color_layered_voxels (cropped_cv 2 (30, 200, 200) 149 (90, 217, 200) 1) () 2 16
   \<and> structure_based_voxels (flat_cv (30, 200, 200) 149 (90, 217, 200) 1) () 2 24
     = structure_based_voxels (cropped_cv 2 (30, 200, 200) 149 (90, 217, 200) 1) () 2 24
   \<and> interpolate (flat_cv (30, 200, 200) 149 (90, 217, 200) 1) () 2 5 5
     \<noteq> interpolate (cropped_cv 2 (30, 200, 200) 149 (90, 217, 200) 1) () 2 5 5"
proof -
  define a where "a = flat_cv (30, 200, 200) 149 (90, 217, 200) 1"
  define b where "b = cropped_cv 2 (30, 200, 200) 149 (90, 217, 200) 1"
  have "\<forall>x<nat 2. \<forall>y<nat 2.
             interpolate a () (nat 2) y x = interpolate b () (nat 2) y x
           \<and> rgb2gray a (nat 2) (interpolate a () (nat 2)) y x
               = rgb2gray b (nat 2) (interpolate b () (nat 2)) y x
           \<and> hsv_at a () 2 x y = hsv_at b () 2 x y
           \<and> dist_at a () 2 x y = dist_at b () 2 x y"
    by (simp add: a_def b_def flat_cv_def cropped_cv_def hsv_at_def dist_at_def)
  from strategies_read_sample_only[OF this, of 8 16 24]
  have "height_based_voxels a () 2 8 = height_based_voxels b () 2 8
       \<and> color_layered_voxels a () 2 16 = color_layered_voxels b () 2 16
       \<and> structure_based_voxels a () 2 24 = structure_based_voxels b () 2 24" .
  moreover have "interpolate a () 2 5 5 \<noteq> interpolate b () 2 5 5"
    by (simp add: a_def b_def flat_cv_def cropped_cv_def)
  ultimately show ?thesis unfolding a_def b_def by blast
qed

text \<open>
  C4. For every strategy result (an occupancy grid and a colour grid of the same shape) and
  every path of an \<^verbatim>\<open>.npz\<close> file inside a directory, \<open>save_voxels\<close> emits a payload whose
  coordinate list and colour list both have the length \<^verbatim>\<open>np.sum(voxels)\<close>, the occupied voxel
  count; the colours are those of the listed cells; the coordinates are in strictly ascending
  order of flattened index, so none is listed twice; the declared shape is the shape of the
  grid; and the grid reconstructed from the payload has that shape and the same cells as the
  original, with nothing occupied outside the shape.
\<close>

theorem volume_encoder_round_trip:
  assumes "shape (vd_colors voxel_data) = shape (vd_voxels voxel_data)"
    and "CHR ''/'' \<in> set output_path"
    and "endswith output_path ''.npz''"
  shows "\<exists>p. save_voxels voxel_data output_path = Inr (Some p)
       \<and> length (npz_positions p) = np_sum (vd_voxels voxel_data)
       \<and> length (npz_colors p) = np_sum (vd_voxels voxel_data)
       \<and> npz_colors p = map (cell (vd_colors voxel_data)) (npz_positions p)
       \<and> sorted_wrt (<) (map (ravel (shape (vd_voxels voxel_data))) (npz_positions p))
       \<and> distinct (npz_positions p)
       \<and> npz_grid_shape p = shape (vd_voxels voxel_data)
       \<and> npz_method p = vd_method voxel_data
       \<and> shape (reconstruct p) = shape (vd_voxels voxel_data)
       \<and> (\<forall>c. in_shape (shape (vd_voxels voxel_data)) c \<longrightarrow>
               cell (reconstruct p) c = cell (vd_voxels voxel_data) c)
       \<and> (\<forall>c. \<not> in_shape (shape (vd_voxels voxel_data)) c \<longrightarrow> \<not> cell (reconstruct p) c)"
proof -
  define p where "p = \<lparr>npz_positions = np_where (vd_voxels voxel_data),
                        npz_colors = map (cell (vd_colors voxel_data)) (np_where (vd_voxels voxel_data)),
                        npz_grid_shape = shape (vd_voxels voxel_data),
                        npz_method = vd_method voxel_data\<rparr>"
  have "list_all (in_shape (shape (vd_colors voxel_data))) (np_where (vd_voxels voxel_data))"
    unfolding assms(1) list_all_iff by (simp add: set_np_where)
  then have t: "take_cells (vd_colors voxel_data) (np_where (vd_voxels voxel_data))
               = Inr (map (cell (vd_colors voxel_data)) (np_where (vd_voxels voxel_data)))"
    by (simp add: take_cells_def)
  have s: "save_voxels voxel_data output_path = Inr (Some p)"
    using assms(2,3) by (simp add: save_voxels_def Let_def t p_def)
  have c: "cell (reconstruct p) c = (in_shape (shape (vd_voxels voxel_data)) c \<and> cell (vd_voxels voxel_data) c)"
    for c
    by (simp add: cell_reconstruct p_def set_np_where)
  show ?thesis
  proof (intro exI[of _ p] conjI)
    show "save_voxels voxel_data output_path = Inr (Some p)" by (rule s)
    show "length (npz_positions p) = np_sum (vd_voxels voxel_data)"
      by (simp add: p_def length_np_where)
    show "length (npz_colors p) = np_sum (vd_voxels voxel_data)"
      by (simp add: p_def length_np_where)
    show "npz_colors p = map (cell (vd_colors voxel_data)) (npz_positions p)"
      by (simp add: p_def)
    show "sorted_wrt (<) (map (ravel (shape (vd_voxels voxel_data))) (npz_positions p))"
      by (simp add: p_def sorted_np_where)
    show "distinct (npz_positions p)" by (simp add: p_def distinct_np_where)
    show "npz_grid_shape p = shape (vd_voxels voxel_data)" by (simp add: p_def)
    show "npz_method p = vd_method voxel_data" by (simp add: p_def)
    show "shape (reconstruct p) = shape (vd_voxels voxel_data)" by (simp add: reconstruct_def p_def)
    show "\<forall>c. in_shape (shape (vd_voxels voxel_data)) c \<longrightarrow>
               cell (reconstruct p) c = cell (vd_voxels voxel_data) c"
      by (simp add: c)
    show "\<forall>c. \<not> in_shape (shape (vd_voxels voxel_data)) c \<longrightarrow> \<not> cell (reconstruct p) c"
      by (simp add: c)
  qed
qed

text \<open>
  A grid with three occupied cells: three coordinates are listed, and the reconstruction
  agrees with the grid at an occupied and at an empty cell.
\<close>

theorem volume_encoder_round_trip_witness:
  "\<not> isl (save_voxels sample_data ''out/v.npz'')
   \<and> length (npz_positions (the (projr (save_voxels sample_data ''out/v.npz'')))) = 3
   \<and> vd_count sample_data = 3
   \<and> cell (reconstruct (the (projr (save_voxels sample_data ''out/v.npz'')))) (0, 2, 3)
   \<and> \<not> cell (reconstruct (the (projr (save_voxels sample_data ''out/v.npz'')))) (2, 2, 3)"
proof -
  have h: "shape (vd_colors sample_data) = shape (vd_voxels sample_data)"
    "CHR ''/'' \<in> set ''out/v.npz''" "endswith ''out/v.npz'' ''.npz''"
    by (simp_all add: sample_data_def sample_colors_def sample_voxels_def endswith_def)
  have n: "np_sum (vd_voxels sample_data) = 3"
    by code_simp
  have i: "in_shape (shape (vd_voxels sample_data)) (0, 2, 3)"
    "in_shape (shape (vd_voxels sample_data)) (2, 2, 3)"
    "cell (vd_voxels sample_data) (0, 2, 3)" "\<not> cell (vd_voxels sample_data) (2, 2, 3)"
    by (simp_all add: sample_data_def sample_voxels_def in_shape_def)
  from volume_encoder_round_trip[OF h]
  obtain p where p: "save_voxels sample_data ''out/v.npz'' = Inr (Some p)"
    and l: "length (npz_positions p) = np_sum (vd_voxels sample_data)"
    and r: "\<forall>c. in_shape (shape (vd_voxels sample_data)) c \<longrightarrow>
               cell (reconstruct p) c = cell (vd_voxels sample_data) c"
    by blast
  have "cell (reconstruct p) (0, 2, 3)" "\<not> cell (reconstruct p) (2, 2, 3)"
    using r i by blast+
  moreover have "vd_count sample_data = 3" by (simp add: sample_data_def)
  ultimately show ?thesis using l n by (simp add: p)
qed

text \<open>
  C5 says that an unknown method selector is rejected with \<^verbatim>\<open>UnknownMethod\<close> before any
  computation. The code does not do that: \<^verbatim>\<open>supported_methods\<close> is never consulted, and the
  \<^verbatim>\<open>if\<close>/\<^verbatim>\<open>elif\<close> chain has no \<^verbatim>\<open>else\<close>. For the selector \<^verbatim>\<open>cube\<close> and an existing image,
  \<open>convert_image\<close> loads the image and then fails with \<^verbatim>\<open>UnboundLocalError\<close> at
  \<^verbatim>\<open>np.sum(voxels)\<close>; for a missing file it fails with \<^verbatim>\<open>FileNotFoundError\<close> without looking
  at the selector.
\<close>

theorem unknown_method_fails_after_loading:
  "convert_image (one_file_world ''photo.png'' ()) (flat_cv (128, 128, 128) 128 (0, 0, 128) 0)
      ''photo.png'' ''cube'' Map.empty
     = ([ImageLoaded ''photo.png''], Inl UnboundLocalError)
   \<and> convert_image (one_file_world ''photo.png'' ()) (flat_cv (128, 128, 128) 128 (0, 0, 128) 0)
      ''missing.png'' ''cube'' Map.empty
     = ([], Inl FileNotFoundError)"
  by (simp add: convert_image_def one_file_world_def run_method_def)

end
